theory Spec2Isabelle
  imports Complex_Main "HOL-Library.Word"
begin

unbundle bit_operations_syntax

section \<open>Bytes, runes and UTF-8 decoding\<close>

text \<open>
  \<^verbatim>\<open>util.go\<close> hands a \<^verbatim>\<open>[]byte\<close> to \<^verbatim>\<open>regexp.Regexp.Match\<close>. Go's matcher reads
  the slice one rune at a time: a byte below \<^verbatim>\<open>utf8.RuneSelf\<close> is its own rune, anything
  else goes through \<^verbatim>\<open>utf8.DecodeRune\<close>, which yields \<^verbatim>\<open>(RuneError, 1)\<close> on a malformed
  sequence. The definitions below follow \<^verbatim>\<open>unicode/utf8\<close> of the Go standard library.
\<close>

type_synonym byte = "8 word"
type_synonym rune = "32 word"

definition bytes_of :: "string \<Rightarrow> byte list" where
  "bytes_of s = map of_char s"

definition RuneError :: rune where "RuneError = 0xFFFD"
definition RuneSelf :: byte where "RuneSelf = 0x80"

definition maskx :: byte where "maskx = 0x3F"
definition mask2 :: byte where "mask2 = 0x1F"
definition mask3 :: byte where "mask3 = 0x0F"
definition mask4 :: byte where "mask4 = 0x07"

definition locb :: byte where "locb = 0x80"
definition hicb :: byte where "hicb = 0xBF"

text \<open>The entries of the table \<^verbatim>\<open>first\<close>: size in the low nibble, index into
  \<^verbatim>\<open>acceptRanges\<close> in the high nibble; \<^verbatim>\<open>xx\<close> marks an illegal lead byte, \<^verbatim>\<open>as\<close> ASCII.\<close>

definition utf8_xx :: byte where "utf8_xx = 0xF1"
definition utf8_as :: byte where "utf8_as = 0xF0"
definition utf8_s1 :: byte where "utf8_s1 = 0x02"
definition utf8_s2 :: byte where "utf8_s2 = 0x13"
definition utf8_s3 :: byte where "utf8_s3 = 0x03"
definition utf8_s4 :: byte where "utf8_s4 = 0x23"
definition utf8_s5 :: byte where "utf8_s5 = 0x34"
definition utf8_s6 :: byte where "utf8_s6 = 0x04"
definition utf8_s7 :: byte where "utf8_s7 = 0x44"

definition utf8_first :: "byte \<Rightarrow> byte" where
  "utf8_first b =
     (if b < 0x80 then utf8_as
      else if b < 0xC2 then utf8_xx
      else if b < 0xE0 then utf8_s1
      else if b = 0xE0 then utf8_s2
      else if b < 0xED then utf8_s3
      else if b = 0xED then utf8_s4
      else if b < 0xF0 then utf8_s3
      else if b = 0xF0 then utf8_s5
      else if b < 0xF4 then utf8_s6
      else if b = 0xF4 then utf8_s7
      else utf8_xx)"

definition acceptRanges :: "nat \<Rightarrow> byte \<times> byte" where
  "acceptRanges i =
     (if i = 0 then (locb, hicb)
      else if i = 1 then (0xA0, hicb)
      else if i = 2 then (locb, 0x9F)
      else if i = 3 then (0x90, hicb)
      else if i = 4 then (locb, 0x8F)
      else (0, 0))"

definition DecodeRune :: "byte list \<Rightarrow> rune \<times> nat" where
  "DecodeRune p =
     (let n = length p in
      if n < 1 then (RuneError, 0)
      else
        let p0 = p ! 0; x = utf8_first p0 in
        if x \<ge> utf8_as then
          (let mask = signed_drop_bit 31 (push_bit 31 (ucast x :: rune))
           in ((ucast p0 AND NOT mask) OR (RuneError AND mask), 1))
        else
          let sz = unat (x AND 7);
              lo = fst (acceptRanges (unat (drop_bit 4 x)));
              hi = snd (acceptRanges (unat (drop_bit 4 x)))
          in
          if n < sz then (RuneError, 1)
          else
            let b1 = p ! 1 in
            if b1 < lo \<or> hi < b1 then (RuneError, 1)
            else if sz \<le> 2 then
              (push_bit 6 (ucast (p0 AND mask2)) OR ucast (b1 AND maskx), 2)
            else
              let b2 = p ! 2 in
              if b2 < locb \<or> hicb < b2 then (RuneError, 1)
              else if sz \<le> 3 then
                (push_bit 12 (ucast (p0 AND mask3)) OR push_bit 6 (ucast (b1 AND maskx))
                   OR ucast (b2 AND maskx), 3)
              else
                let b3 = p ! 3 in
                if b3 < locb \<or> hicb < b3 then (RuneError, 1)
                else
                  (push_bit 18 (ucast (p0 AND mask4)) OR push_bit 12 (ucast (b1 AND maskx))
                     OR push_bit 6 (ucast (b2 AND maskx)) OR ucast (b3 AND maskx), 4))"

text \<open>\<^verbatim>\<open>inputBytes.step\<close> of package \<^verbatim>\<open>regexp\<close>: the rune at byte offset \<open>pos\<close> and its
  width; width \<open>0\<close> (with the rune \<^verbatim>\<open>endOfText = -1\<close>) past the end.\<close>

definition endOfText :: rune where "endOfText = - 1"

definition step :: "byte list \<Rightarrow> nat \<Rightarrow> rune \<times> nat" where
  "step str pos =
     (if pos < length str then
        (let c = str ! pos in
         if c < RuneSelf then (ucast c, 1) else DecodeRune (drop pos str))
      else (endOfText, 0))"


text \<open>The runes of a byte slice, as the matcher stepping from offset 0 (or a
  \<^verbatim>\<open>for ... range\<close> over it) sees them.\<close>

function runes :: "byte list \<Rightarrow> rune list" where
  "runes p = (if p = [] then [] else fst (DecodeRune p) # runes (drop (snd (DecodeRune p)) p))"
  by pat_completeness auto
termination
proof (relation "measure length")
  show "wf (measure length)" by simp
next
  fix p :: "byte list"
  assume "p \<noteq> []"
  then have "0 < snd (DecodeRune p)" by (simp add: DecodeRune_def Let_def)
  with \<open>p \<noteq> []\<close> show "(drop (snd (DecodeRune p)) p, p) \<in> measure length"
    by simp
qed

declare runes.simps [simp del]

section \<open>Regular expressions as \<^verbatim>\<open>regexp\<close> matches them\<close>

text \<open>
  The Unicode range tables \<^verbatim>\<open>unicode.L\<close> and \<^verbatim>\<open>unicode.N\<close> behind \<^verbatim>\<open>\pL\<close> and \<^verbatim>\<open>\pN\<close> belong
  to the Go distribution, not to this package; they are a parameter of the model.
\<close>

record unicode_tables =
  cat_L :: "rune \<Rightarrow> bool"
  cat_N :: "rune \<Rightarrow> bool"

datatype class_item = UnicodeL | UnicodeN | Lit char

fun item_matches :: "unicode_tables \<Rightarrow> rune \<Rightarrow> class_item \<Rightarrow> bool" where
  "item_matches T r UnicodeL = cat_L T r"
| "item_matches T r UnicodeN = cat_N T r"
| "item_matches T r (Lit c) = (r = of_char c)"

text \<open>The operators of \<^verbatim>\<open>regexp/syntax\<close> that the two patterns parse to.\<close>

datatype regexp =
    OpBeginText
  | OpEndText
  | OpCharClass "class_item list"
  | OpPlus regexp
  | OpConcat "regexp list"

text \<open>\<open>plus_iter f k frontier\<close>: the offsets reached from \<open>frontier\<close> by one up to \<open>k\<close>
  rounds of \<open>f\<close>.\<close>

fun plus_iter :: "(nat \<Rightarrow> nat list) \<Rightarrow> nat \<Rightarrow> nat list \<Rightarrow> nat list" where
  "plus_iter f 0 frontier = []"
| "plus_iter f (Suc k) frontier =
     (let nxt = concat (map f frontier) in nxt @ plus_iter f k nxt)"

lemma plus_iter_cong [fundef_cong]:
  "(\<And>x. f x = g x) \<Longrightarrow> k = k' \<Longrightarrow> fr = fr' \<Longrightarrow> plus_iter f k fr = plus_iter g k' fr'"
proof -
  assume "\<And>x. f x = g x"
  then have "f = g" by (simp add: fun_eq_iff)
  moreover assume "k = k'" "fr = fr'"
  ultimately show ?thesis by simp
qed

text \<open>\<open>ends T re s i\<close>: the byte offsets at which a match of \<open>re\<close> that starts at offset
  \<open>i\<close> of \<open>s\<close> can end. \<^verbatim>\<open>^\<close> and \<^verbatim>\<open>$\<close> are compiled without the multi-line flag, so they
  are begin-of-text and end-of-text.\<close>

fun ends :: "unicode_tables \<Rightarrow> regexp \<Rightarrow> byte list \<Rightarrow> nat \<Rightarrow> nat list" where
  "ends T OpBeginText s i = (if i = 0 then [i] else [])"
| "ends T OpEndText s i = (if i = length s then [i] else [])"
| "ends T (OpCharClass items) s i =
     (let r = fst (step s i); w = snd (step s i)
      in if w \<noteq> 0 \<and> list_ex (item_matches T r) items then [i + w] else [])"
| "ends T (OpPlus re) s i = plus_iter (ends T re s) (Suc (length s)) [i]"
| "ends T (OpConcat res) s i = fold (\<lambda>re ps. concat (map (ends T re s) ps)) res [i]"

text \<open>The offsets at which an unanchored search may start: the rune boundaries.\<close>

function boundaries :: "byte list \<Rightarrow> nat \<Rightarrow> nat list" where
  "boundaries s i = (if i < length s then i # boundaries s (i + snd (step s i)) else [i])"
  by pat_completeness auto
termination
proof (relation "measure (\<lambda>(s, i). length s - i)")
  show "wf (measure (\<lambda>(s, i). length s - i))" by simp
next
  fix s :: "byte list" and i :: nat
  assume "i < length s"
  then have "0 < snd (step s i)" by (simp add: step_def DecodeRune_def Let_def)
  with \<open>i < length s\<close>
  show "((s, i + snd (step s i)), (s, i)) \<in> measure (\<lambda>(s, i). length s - i)"
    by simp
qed

declare boundaries.simps [simp del]

text \<open>\<^verbatim>\<open>(*Regexp).Match\<close>: does the slice contain a match.\<close>

definition Match :: "unicode_tables \<Rightarrow> regexp \<Rightarrow> byte list \<Rightarrow> bool" where
  "Match T re b = list_ex (\<lambda>i. ends T re b i \<noteq> []) (boundaries b 0)"

section \<open>The validators of \<^verbatim>\<open>util.go\<close>\<close>

text \<open>\<^verbatim>\<open>var validFuncName = regexp.MustCompile(`^[\pL\pN_\?@$\(\)]+$`)\<close>\<close>

definition validFuncName :: regexp where
  "validFuncName =
     OpConcat [OpBeginText,
       OpPlus (OpCharClass [UnicodeL, UnicodeN, Lit CHR ''_'', Lit CHR ''?'', Lit CHR ''@'',
         Lit CHR ''$'', Lit CHR ''('', Lit CHR '')'']),
       OpEndText]"

definition isValidFuncName :: "unicode_tables \<Rightarrow> byte list \<Rightarrow> bool" where
  "isValidFuncName T name = Match T validFuncName name"

text \<open>\<^verbatim>\<open>var validDosName = regexp.MustCompile("^[\\pL\\pN!//$%&'\\(\\)`\\-@^_\\{\\}~+,.;=\\[\\]]+$")\<close>;
  the hyphen is escaped, so the class has no range, and the caret is not in first place,
  so it is a literal.\<close>

definition validDosName :: regexp where
  "validDosName =
     OpConcat [OpBeginText,
       OpPlus (OpCharClass [UnicodeL, UnicodeN, Lit CHR ''!'', Lit CHR ''/'', Lit CHR ''/'',
         Lit CHR ''$'', Lit CHR ''%'', Lit CHR ''&'', Lit CHR 0x27, Lit CHR ''('', Lit CHR '')'',
         Lit CHR 0x60, Lit CHR ''-'', Lit CHR ''@'', Lit CHR ''^'', Lit CHR ''_'', Lit CHR ''{'',
         Lit CHR ''}'', Lit CHR ''~'', Lit CHR ''+'', Lit CHR '','', Lit CHR ''.'', Lit CHR '';'',
         Lit CHR ''='', Lit CHR ''['', Lit CHR '']'']),
       OpEndText]"

definition isValidDosFilename :: "unicode_tables \<Rightarrow> byte list \<Rightarrow> bool" where
  "isValidDosFilename T name = Match T validDosName name"


section \<open>What the validators are specified to accept\<close>

fun in_ranges :: "byte list \<Rightarrow> (byte \<times> byte) list \<Rightarrow> bool" where
  "in_ranges bs [] = True"
| "in_ranges [] (r # rs) = False"
| "in_ranges (b # bs) (r # rs) = (fst r \<le> b \<and> b \<le> snd r \<and> in_ranges bs rs)"

text \<open>Well-formed UTF-8 byte sequences (the Unicode Standard, table 3-7): the ranges
  that the bytes after a given first byte must lie in; \<open>None\<close> for a byte that cannot
  start a sequence.\<close>

definition tail_ranges :: "byte \<Rightarrow> (byte \<times> byte) list option" where
  "tail_ranges b0 =
     (if b0 \<le> 0x7F then Some []
      else if 0xC2 \<le> b0 \<and> b0 \<le> 0xDF then Some [(0x80, 0xBF)]
      else if b0 = 0xE0 then Some [(0xA0, 0xBF), (0x80, 0xBF)]
      else if 0xE1 \<le> b0 \<and> b0 \<le> 0xEC then Some [(0x80, 0xBF), (0x80, 0xBF)]
      else if b0 = 0xED then Some [(0x80, 0x9F), (0x80, 0xBF)]
      else if 0xEE \<le> b0 \<and> b0 \<le> 0xEF then Some [(0x80, 0xBF), (0x80, 0xBF)]
      else if b0 = 0xF0 then Some [(0x90, 0xBF), (0x80, 0xBF), (0x80, 0xBF)]
      else if 0xF1 \<le> b0 \<and> b0 \<le> 0xF3 then Some [(0x80, 0xBF), (0x80, 0xBF), (0x80, 0xBF)]
      else if b0 = 0xF4 then Some [(0x80, 0x8F), (0x80, 0xBF), (0x80, 0xBF)]
      else None)"

text \<open>The length of the well-formed sequence at the head of \<open>p\<close>, \<open>0\<close> if there is none.\<close>

definition wf_prefix_len :: "byte list \<Rightarrow> nat" where
  "wf_prefix_len p =
     (case p of [] \<Rightarrow> 0
      | b0 # r \<Rightarrow>
          (case tail_ranges b0 of None \<Rightarrow> 0
           | Some rs \<Rightarrow> if in_ranges r rs then Suc (length rs) else 0))"

function valid_utf8 :: "byte list \<Rightarrow> bool" where
  "valid_utf8 p =
     (if p = [] then True
      else if wf_prefix_len p = 0 then False
      else valid_utf8 (drop (wf_prefix_len p) p))"
  by pat_completeness auto
termination
  by (relation "measure length") auto

declare valid_utf8.simps [simp del]

definition symbol_punct :: "rune set" where
  "symbol_punct = of_char ` set ''_?@$()''"

definition dos_punct :: "rune set" where
  "dos_punct = of_char ` {CHR ''!'', CHR ''/'', CHR ''$'', CHR ''%'', CHR ''&'', CHR 0x27,
     CHR ''('', CHR '')'', CHR 0x60, CHR ''-'', CHR ''@'', CHR ''^'', CHR ''_'', CHR ''{'',
     CHR ''}'', CHR ''~'', CHR ''+'', CHR '','', CHR ''.'', CHR '';'', CHR ''='', CHR ''['',
     CHR '']''}"

definition is_control :: "rune \<Rightarrow> bool" where
  "is_control r \<longleftrightarrow> r < 0x20 \<or> (0x7F \<le> r \<and> r \<le> 0x9F)"

definition unicode_conformant :: "unicode_tables \<Rightarrow> bool" where
  "unicode_conformant T \<longleftrightarrow>
     (\<forall>r. r < 0x80 \<longrightarrow>
        (cat_L T r \<longleftrightarrow> (0x41 \<le> r \<and> r \<le> 0x5A) \<or> (0x61 \<le> r \<and> r \<le> 0x7A)) \<and>
        (cat_N T r \<longleftrightarrow> 0x30 \<le> r \<and> r \<le> 0x39)) \<and>
     (\<forall>r. is_control r \<longrightarrow> \<not> cat_L T r \<and> \<not> cat_N T r) \<and>
     \<not> cat_L T RuneError \<and> \<not> cat_N T RuneError"

text \<open>The two categories on the first 256 code points, a table to run the model on.\<close>

definition latin1_tables :: unicode_tables where
  "latin1_tables =
     \<lparr>cat_L = (\<lambda>r. (0x41 \<le> r \<and> r \<le> 0x5A) \<or> (0x61 \<le> r \<and> r \<le> 0x7A) \<or> r = 0xAA \<or> r = 0xB5
                 \<or> r = 0xBA \<or> (0xC0 \<le> r \<and> r \<le> 0xD6) \<or> (0xD8 \<le> r \<and> r \<le> 0xF6)
                 \<or> (0xF8 \<le> r \<and> r \<le> 0xFF)),
      cat_N = (\<lambda>r. (0x30 \<le> r \<and> r \<le> 0x39) \<or> r = 0xB2 \<or> r = 0xB3 \<or> r = 0xB9
                 \<or> (0xBC \<le> r \<and> r \<le> 0xBE))\<rparr>"

section \<open>The fuzzy hash\<close>

text \<open>
  Go's \<^verbatim>\<open>error\<close> values. What \<^verbatim>\<open>ssdeep.FuzzyBytes\<close> reports is opaque here (\<open>'e\<close>);
  \<^verbatim>\<open>github.com/pkg/errors\<close> builds on it with \<^verbatim>\<open>withMessage\<close> and \<^verbatim>\<open>withStack\<close> (the recorded
  call stack is left out). A \<^verbatim>\<open>nil\<close> error is \<open>None\<close>.
\<close>

datatype 'e error =
    Opaque 'e
  | WithMessage "'e error" string
  | WithStack "'e error"

text \<open>\<^verbatim>\<open>errors.Wrap\<close>: \<^verbatim>\<open>nil\<close> stays \<^verbatim>\<open>nil\<close>, anything else is annotated with the message and
  a stack.\<close>

definition Wrap :: "'e error option \<Rightarrow> string \<Rightarrow> 'e error option" where
  "Wrap err message =
     (case err of None \<Rightarrow> None
      | Some e \<Rightarrow> Some (WithStack (WithMessage e message)))"

text \<open>\<^verbatim>\<open>errors.Cause\<close>: the innermost error under the annotations.\<close>

fun Cause :: "'e error \<Rightarrow> 'e error" where
  "Cause (Opaque e) = Opaque e"
| "Cause (WithMessage e m) = Cause e"
| "Cause (WithStack e) = Cause e"

text \<open>\<^verbatim>\<open>Error()\<close> of an annotated error, given the text of the opaque ones.\<close>

fun Error_text :: "('e \<Rightarrow> string) \<Rightarrow> 'e error \<Rightarrow> string" where
  "Error_text t (Opaque e) = t e"
| "Error_text t (WithMessage e m) = m @ '': '' @ Error_text t e"
| "Error_text t (WithStack e) = Error_text t e"

text \<open>\<^verbatim>\<open>GetFuzzyHash\<close>; \<^verbatim>\<open>ssdeep.FuzzyBytes\<close> is the parameter \<open>FuzzyBytes\<close>.\<close>

definition GetFuzzyHash ::
  "(byte list \<Rightarrow> string \<times> 'e error option) \<Rightarrow> byte list \<Rightarrow> string \<times> 'e error option" where
  "GetFuzzyHash FuzzyBytes data =
     (let ssdp = fst (FuzzyBytes data); err = snd (FuzzyBytes data) in
      if err \<noteq> None then ('''', Wrap err ''fail to calc fuzzy hash'')
      else (ssdp, None))"

text \<open>A test double in place of the library, to run the model on: it is not the library's
  algorithm; it reports an error on an input shorter than 4096 bytes and a fixed string otherwise.\<close>

definition stub_FuzzyBytes :: "byte list \<Rightarrow> string \<times> string error option" where
  "stub_FuzzyBytes data =
     (if length data < 4096 then ('''', Some (Opaque ''input too small''))
      else (''96:stub:stub'', None))"

section \<open>Entropy\<close>

text \<open>
  \<^verbatim>\<open>float64\<close> arithmetic is modelled on the reals: an operation yields the rounding of its
  exact result. The rounding function and \<^verbatim>\<open>math.Log2\<close> are parameters; so is whether the
  compiler fuses \<^verbatim>\<open>entropy - px*math.Log2(px)\<close> into one rounded operation, as the Go
  specification allows.
\<close>

record float_ops =
  rnd :: "real \<Rightarrow> real"
  Log2 :: "real \<Rightarrow> real"
  fused :: bool

definition float64 :: "float_ops \<Rightarrow> int \<Rightarrow> real" where
  "float64 F n = rnd F (of_int n)"

definition fdiv :: "float_ops \<Rightarrow> real \<Rightarrow> real \<Rightarrow> real" where
  "fdiv F x y = rnd F (x / y)"

definition fmul :: "float_ops \<Rightarrow> real \<Rightarrow> real \<Rightarrow> real" where
  "fmul F x y = rnd F (x * y)"

definition fsub :: "float_ops \<Rightarrow> real \<Rightarrow> real \<Rightarrow> real" where
  "fsub F x y = rnd F (x - y)"

text \<open>\<^verbatim>\<open>z - x*y\<close>\<close>

definition fmsub :: "float_ops \<Rightarrow> real \<Rightarrow> real \<Rightarrow> real \<Rightarrow> real" where
  "fmsub F z x y = (if fused F then rnd F (z - x * y) else fsub F z (fmul F x y))"

text \<open>The first loop of \<^verbatim>\<open>GetEntropy\<close>: the 256 counters. A counter never exceeds
  \<^verbatim>\<open>len(data)\<close>, which is an \<^verbatim>\<open>int\<close>, so the increments do not overflow.\<close>

definition count_bytes :: "byte list \<Rightarrow> int list" where
  "count_bytes data =
     fold (\<lambda>char occurences. occurences[unat char := occurences ! unat char + 1])
       data (replicate 256 0)"

text \<open>The body of the second loop, on the pair \<open>(entropy, px)\<close>.\<close>

definition entropy_step :: "float_ops \<Rightarrow> int \<Rightarrow> int \<Rightarrow> real \<times> real \<Rightarrow> real \<times> real" where
  "entropy_step F len occurence acc =
     (if occurence > 0 then
        (let px = fdiv F (float64 F occurence) (float64 F len);
             entropy = fmsub F (fst acc) px (Log2 F px)
         in (entropy, px))
      else acc)"

definition GetEntropy :: "float_ops \<Rightarrow> byte list \<Rightarrow> real" where
  "GetEntropy F data =
     (if length data = 0 then 0
      else fst (fold (entropy_step F (int (length data))) (count_bytes data) (0, 0)))"

text \<open>The finite numbers of the IEEE 754 binary64 format.\<close>

definition binary64 :: "real \<Rightarrow> bool" where
  "binary64 x \<longleftrightarrow>
     (\<exists>m e :: int. \<bar>m\<bar> < 2 ^ 53 \<and> - 1074 \<le> e \<and> e \<le> 971 \<and> x = of_int m * 2 powr of_int e)"

text \<open>What the proofs below use of binary64 arithmetic and of \<^verbatim>\<open>math.Log2\<close>: rounding leaves a
  representable number as it is and is monotone, and \<^verbatim>\<open>math.Log2\<close> is exact on the powers
  of two (its implementation takes the exponent from \<^verbatim>\<open>Frexp\<close> in that case).\<close>

definition binary64_arith :: "float_ops \<Rightarrow> bool" where
  "binary64_arith F \<longleftrightarrow>
     (\<forall>x. binary64 x \<longrightarrow> rnd F x = x) \<and>
     (\<forall>x y. x \<le> y \<longrightarrow> rnd F x \<le> rnd F y) \<and>
     (\<forall>k :: int. - 1074 \<le> k \<and> k \<le> 1023 \<longrightarrow> Log2 F (2 powr of_int k) = of_int k)"

text \<open>Arithmetic without rounding error, to run the model on.\<close>

definition exact_arith :: float_ops where
  "exact_arith = \<lparr>rnd = (\<lambda>x. x), Log2 = log 2, fused = False\<rparr>"

section \<open>Digests\<close>

text \<open>
  \<^verbatim>\<open>calcHash\<close> drives a \<^verbatim>\<open>hash.Hash\<close>: an object that absorbs what is written to it and whose
  \<^verbatim>\<open>Sum\<close> appends the digest of everything absorbed so far. \<^verbatim>\<open>crypto/md5\<close>, \<^verbatim>\<open>crypto/sha1\<close> and
  \<^verbatim>\<open>crypto/sha256\<close> of the Go distribution implement RFC 1321 and FIPS 180-4; the three
  functions are written out here after those documents.
\<close>

type_synonym u32 = "32 word"
type_synonym u64 = "64 word"

definition rotl32 :: "nat \<Rightarrow> u32 \<Rightarrow> u32" where
  "rotl32 n x = push_bit n x OR drop_bit (32 - n) x"

definition rotr32 :: "nat \<Rightarrow> u32 \<Rightarrow> u32" where
  "rotr32 n x = drop_bit n x OR push_bit (32 - n) x"

definition le_bytes32 :: "u32 \<Rightarrow> byte list" where
  "le_bytes32 w = [ucast w, ucast (drop_bit 8 w), ucast (drop_bit 16 w), ucast (drop_bit 24 w)]"

definition be_bytes32 :: "u32 \<Rightarrow> byte list" where
  "be_bytes32 w = [ucast (drop_bit 24 w), ucast (drop_bit 16 w), ucast (drop_bit 8 w), ucast w]"

definition le_bytes64 :: "u64 \<Rightarrow> byte list" where
  "le_bytes64 w =
     [ucast w, ucast (drop_bit 8 w), ucast (drop_bit 16 w), ucast (drop_bit 24 w),
      ucast (drop_bit 32 w), ucast (drop_bit 40 w), ucast (drop_bit 48 w), ucast (drop_bit 56 w)]"

definition be_bytes64 :: "u64 \<Rightarrow> byte list" where
  "be_bytes64 w = rev (le_bytes64 w)"

definition le_word32 :: "byte list \<Rightarrow> u32" where
  "le_word32 bs =
     ucast (bs ! 0) OR push_bit 8 (ucast (bs ! 1)) OR push_bit 16 (ucast (bs ! 2))
       OR push_bit 24 (ucast (bs ! 3))"

definition be_word32 :: "byte list \<Rightarrow> u32" where
  "be_word32 bs =
     push_bit 24 (ucast (bs ! 0)) OR push_bit 16 (ucast (bs ! 1)) OR push_bit 8 (ucast (bs ! 2))
       OR ucast (bs ! 3)"

text \<open>The sixteen words of a 64-byte block.\<close>

definition block_words :: "(byte list \<Rightarrow> u32) \<Rightarrow> byte list \<Rightarrow> u32 list" where
  "block_words word32 block = map (\<lambda>i. word32 (take 4 (drop (4 * i) block))) [0..<16]"

text \<open>Padding: a one bit, zeros up to 56 modulo 64, and the length in bits as a 64-bit
  number (which wraps, as the \<^verbatim>\<open>uint64\<close> of the implementations does).\<close>

definition md_pad :: "(u64 \<Rightarrow> byte list) \<Rightarrow> byte list \<Rightarrow> byte list" where
  "md_pad put64 msg =
     msg @ [0x80] @ replicate ((55 + 64 - length msg mod 64) mod 64) 0
       @ put64 (push_bit 3 (of_nat (length msg)))"

text \<open>The compression function applied block after block.\<close>

function md_blocks :: "('s \<Rightarrow> byte list \<Rightarrow> 's) \<Rightarrow> 's \<Rightarrow> byte list \<Rightarrow> 's" where
  "md_blocks block st p =
     (if 64 \<le> length p then md_blocks block (block st (take 64 p)) (drop 64 p) else st)"
  by pat_completeness auto
termination
  by (relation "measure (\<lambda>(block, st, p). length p)") auto

declare md_blocks.simps [simp del]

subsection \<open>MD5 (RFC 1321)\<close>

definition md5_K :: "u32 list" where
  "md5_K =
    [0xD76AA478, 0xE8C7B756, 0x242070DB, 0xC1BDCEEE, 0xF57C0FAF, 0x4787C62A,
     0xA8304613, 0xFD469501, 0x698098D8, 0x8B44F7AF, 0xFFFF5BB1, 0x895CD7BE,
     0x6B901122, 0xFD987193, 0xA679438E, 0x49B40821, 0xF61E2562, 0xC040B340,
     0x265E5A51, 0xE9B6C7AA, 0xD62F105D, 0x02441453, 0xD8A1E681, 0xE7D3FBC8,
     0x21E1CDE6, 0xC33707D6, 0xF4D50D87, 0x455A14ED, 0xA9E3E905, 0xFCEFA3F8,
     0x676F02D9, 0x8D2A4C8A, 0xFFFA3942, 0x8771F681, 0x6D9D6122, 0xFDE5380C,
     0xA4BEEA44, 0x4BDECFA9, 0xF6BB4B60, 0xBEBFBC70, 0x289B7EC6, 0xEAA127FA,
     0xD4EF3085, 0x04881D05, 0xD9D4D039, 0xE6DB99E5, 0x1FA27CF8, 0xC4AC5665,
     0xF4292244, 0x432AFF97, 0xAB9423A7, 0xFC93A039, 0x655B59C3, 0x8F0CCC92,
     0xFFEFF47D, 0x85845DD1, 0x6FA87E4F, 0xFE2CE6E0, 0xA3014314, 0x4E0811A1,
     0xF7537E82, 0xBD3AF235, 0x2AD7D2BB, 0xEB86D391]"

definition md5_shift :: "nat list" where
  "md5_shift =
    [7, 12, 17, 22, 7, 12, 17, 22, 7, 12, 17, 22, 7, 12, 17, 22,
     5, 9, 14, 20, 5, 9, 14, 20, 5, 9, 14, 20, 5, 9, 14, 20,
     4, 11, 16, 23, 4, 11, 16, 23, 4, 11, 16, 23, 4, 11, 16, 23,
     6, 10, 15, 21, 6, 10, 15, 21, 6, 10, 15, 21, 6, 10, 15, 21]"

definition md5_step :: "u32 list \<Rightarrow> nat \<Rightarrow> u32 \<times> u32 \<times> u32 \<times> u32 \<Rightarrow> u32 \<times> u32 \<times> u32 \<times> u32" where
  "md5_step M i st =
     (case st of (a, b, c, d) \<Rightarrow>
        let f = (if i < 16 then (b AND c) OR (NOT b AND d)
                 else if i < 32 then (d AND b) OR (NOT d AND c)
                 else if i < 48 then b XOR c XOR d
                 else c XOR (b OR NOT d));
            g = (if i < 16 then i
                 else if i < 32 then (5 * i + 1) mod 16
                 else if i < 48 then (3 * i + 5) mod 16
                 else (7 * i) mod 16)
        in (d, b + rotl32 (md5_shift ! i) (a + f + md5_K ! i + M ! g), b, c))"

definition md5_block :: "u32 \<times> u32 \<times> u32 \<times> u32 \<Rightarrow> byte list \<Rightarrow> u32 \<times> u32 \<times> u32 \<times> u32" where
  "md5_block st block =
     (case st of (a0, b0, c0, d0) \<Rightarrow>
        case fold (md5_step (block_words le_word32 block)) [0..<64] st of
          (a, b, c, d) \<Rightarrow> (a0 + a, b0 + b, c0 + c, d0 + d))"

definition md5_init :: "u32 \<times> u32 \<times> u32 \<times> u32" where
  "md5_init = (0x67452301, 0xEFCDAB89, 0x98BADCFE, 0x10325476)"

definition md5_sum :: "byte list \<Rightarrow> byte list" where
  "md5_sum msg =
     (case md_blocks md5_block md5_init (md_pad le_bytes64 msg) of
        (a, b, c, d) \<Rightarrow> le_bytes32 a @ le_bytes32 b @ le_bytes32 c @ le_bytes32 d)"

subsection \<open>SHA-1 (FIPS 180-4)\<close>

text \<open>The message schedule, extended from \<open>n\<close> words to \<open>n + k\<close>.\<close>

fun sha1_schedule :: "nat \<Rightarrow> u32 list \<Rightarrow> u32 list" where
  "sha1_schedule 0 w = w"
| "sha1_schedule (Suc k) w =
     (let t = length w in
      sha1_schedule k
        (w @ [rotl32 1 (w ! (t - 3) XOR w ! (t - 8) XOR w ! (t - 14) XOR w ! (t - 16))]))"

type_synonym sha1_state = "u32 \<times> u32 \<times> u32 \<times> u32 \<times> u32"

definition sha1_step :: "u32 list \<Rightarrow> nat \<Rightarrow> sha1_state \<Rightarrow> sha1_state" where
  "sha1_step w t st =
     (case st of (a, b, c, d, e) \<Rightarrow>
        let f = (if t < 20 then (b AND c) OR (NOT b AND d)
                 else if t < 40 then b XOR c XOR d
                 else if t < 60 then (b AND c) OR (b AND d) OR (c AND d)
                 else b XOR c XOR d);
            k = (if t < 20 then 0x5A827999
                 else if t < 40 then 0x6ED9EBA1
                 else if t < 60 then 0x8F1BBCDC
                 else 0xCA62C1D6)
        in (rotl32 5 a + f + e + k + w ! t, a, rotl32 30 b, c, d))"

definition sha1_block :: "sha1_state \<Rightarrow> byte list \<Rightarrow> sha1_state" where
  "sha1_block st block =
     (case st of (a0, b0, c0, d0, e0) \<Rightarrow>
        case fold (sha1_step (sha1_schedule 64 (block_words be_word32 block))) [0..<80] st of
          (a, b, c, d, e) \<Rightarrow> (a0 + a, b0 + b, c0 + c, d0 + d, e0 + e))"

definition sha1_init :: sha1_state where
  "sha1_init = (0x67452301, 0xEFCDAB89, 0x98BADCFE, 0x10325476, 0xC3D2E1F0)"

definition sha1_sum :: "byte list \<Rightarrow> byte list" where
  "sha1_sum msg =
     (case md_blocks sha1_block sha1_init (md_pad be_bytes64 msg) of
        (a, b, c, d, e) \<Rightarrow>
          be_bytes32 a @ be_bytes32 b @ be_bytes32 c @ be_bytes32 d @ be_bytes32 e)"

subsection \<open>SHA-256 (FIPS 180-4)\<close>

definition sha256_K :: "u32 list" where
  "sha256_K =
    [0x428A2F98, 0x71374491, 0xB5C0FBCF, 0xE9B5DBA5, 0x3956C25B, 0x59F111F1,
     0x923F82A4, 0xAB1C5ED5, 0xD807AA98, 0x12835B01, 0x243185BE, 0x550C7DC3,
     0x72BE5D74, 0x80DEB1FE, 0x9BDC06A7, 0xC19BF174, 0xE49B69C1, 0xEFBE4786,
     0x0FC19DC6, 0x240CA1CC, 0x2DE92C6F, 0x4A7484AA, 0x5CB0A9DC, 0x76F988DA,
     0x983E5152, 0xA831C66D, 0xB00327C8, 0xBF597FC7, 0xC6E00BF3, 0xD5A79147,
     0x06CA6351, 0x14292967, 0x27B70A85, 0x2E1B2138, 0x4D2C6DFC, 0x53380D13,
     0x650A7354, 0x766A0ABB, 0x81C2C92E, 0x92722C85, 0xA2BFE8A1, 0xA81A664B,
     0xC24B8B70, 0xC76C51A3, 0xD192E819, 0xD6990624, 0xF40E3585, 0x106AA070,
     0x19A4C116, 0x1E376C08, 0x2748774C, 0x34B0BCB5, 0x391C0CB3, 0x4ED8AA4A,
     0x5B9CCA4F, 0x682E6FF3, 0x748F82EE, 0x78A5636F, 0x84C87814, 0x8CC70208,
     0x90BEFFFA, 0xA4506CEB, 0xBEF9A3F7, 0xC67178F2]"

fun sha256_schedule :: "nat \<Rightarrow> u32 list \<Rightarrow> u32 list" where
  "sha256_schedule 0 w = w"
| "sha256_schedule (Suc k) w =
     (let t = length w;
          x = w ! (t - 15);
          y = w ! (t - 2);
          s0 = rotr32 7 x XOR rotr32 18 x XOR drop_bit 3 x;
          s1 = rotr32 17 y XOR rotr32 19 y XOR drop_bit 10 y
      in sha256_schedule k (w @ [s1 + w ! (t - 7) + s0 + w ! (t - 16)]))"

type_synonym sha256_state = "u32 \<times> u32 \<times> u32 \<times> u32 \<times> u32 \<times> u32 \<times> u32 \<times> u32"

definition sha256_step :: "u32 list \<Rightarrow> nat \<Rightarrow> sha256_state \<Rightarrow> sha256_state" where
  "sha256_step w t st =
     (case st of (a, b, c, d, e, f, g, h) \<Rightarrow>
        let S1 = rotr32 6 e XOR rotr32 11 e XOR rotr32 25 e;
            ch = (e AND f) XOR (NOT e AND g);
            t1 = h + S1 + ch + sha256_K ! t + w ! t;
            S0 = rotr32 2 a XOR rotr32 13 a XOR rotr32 22 a;
            maj = (a AND b) XOR (a AND c) XOR (b AND c);
            t2 = S0 + maj
        in (t1 + t2, a, b, c, d + t1, e, f, g))"

definition sha256_block :: "sha256_state \<Rightarrow> byte list \<Rightarrow> sha256_state" where
  "sha256_block st block =
     (case st of (a0, b0, c0, d0, e0, f0, g0, h0) \<Rightarrow>
        case fold (sha256_step (sha256_schedule 48 (block_words be_word32 block))) [0..<64] st of
          (a, b, c, d, e, f, g, h) \<Rightarrow>
            (a0 + a, b0 + b, c0 + c, d0 + d, e0 + e, f0 + f, g0 + g, h0 + h))"

definition sha256_init :: sha256_state where
  "sha256_init =
     (0x6A09E667, 0xBB67AE85, 0x3C6EF372, 0xA54FF53A,
      0x510E527F, 0x9B05688C, 0x1F83D9AB, 0x5BE0CD19)"

definition sha256_sum :: "byte list \<Rightarrow> byte list" where
  "sha256_sum msg =
     (case md_blocks sha256_block sha256_init (md_pad be_bytes64 msg) of
        (a, b, c, d, e, f, g, h) \<Rightarrow>
          be_bytes32 a @ be_bytes32 b @ be_bytes32 c @ be_bytes32 d
            @ be_bytes32 e @ be_bytes32 f @ be_bytes32 g @ be_bytes32 h)"

subsection \<open>Hash objects and \<^verbatim>\<open>calcHash\<close>\<close>

text \<open>
  \<^verbatim>\<open>md5.New()\<close>, \<^verbatim>\<open>sha1.New()\<close> and \<^verbatim>\<open>sha256.New()\<close> allocate a hash object; \<^verbatim>\<open>Write\<close> changes it in
  place. The objects live in a heap of cells: a cell records which algorithm the object
  runs and the bytes it has absorbed. \<open>top\<close> is the next free cell.
\<close>

datatype algorithm = MD5 | SHA1 | SHA256

record hasher =
  alg :: algorithm
  absorbed :: "byte list"

record heap =
  cells :: "nat \<Rightarrow> hasher"
  top :: nat

definition New :: "algorithm \<Rightarrow> heap \<Rightarrow> nat \<times> heap" where
  "New a h =
     (top h, h\<lparr>cells := (cells h)(top h := \<lparr>alg = a, absorbed = []\<rparr>), top := Suc (top h)\<rparr>)"

definition Write :: "nat \<Rightarrow> byte list \<Rightarrow> heap \<Rightarrow> heap" where
  "Write p data h =
     h\<lparr>cells := (cells h)(p := (cells h p)\<lparr>absorbed := absorbed (cells h p) @ data\<rparr>)\<rparr>"

definition digest :: "algorithm \<Rightarrow> byte list \<Rightarrow> byte list" where
  "digest a msg = (case a of MD5 \<Rightarrow> md5_sum msg | SHA1 \<Rightarrow> sha1_sum msg | SHA256 \<Rightarrow> sha256_sum msg)"

text \<open>\<^verbatim>\<open>Sum(b)\<close> appends the digest to \<open>b\<close> and leaves the object as it is.\<close>

definition Sum :: "nat \<Rightarrow> byte list \<Rightarrow> heap \<Rightarrow> byte list" where
  "Sum p b h = b @ digest (alg (cells h p)) (absorbed (cells h p))"

text \<open>\<^verbatim>\<open>hex.EncodeToString\<close>\<close>

definition hextable :: string where
  "hextable = ''0123456789abcdef''"

definition EncodeToString :: "byte list \<Rightarrow> string" where
  "EncodeToString src =
     concat (map (\<lambda>v. [hextable ! unat (drop_bit 4 v), hextable ! unat (v AND 0x0F)]) src)"

definition calcHash :: "nat \<Rightarrow> byte list \<Rightarrow> heap \<Rightarrow> string \<times> heap" where
  "calcHash p data h = (let h' = Write p data h in (EncodeToString (Sum p [] h'), h'))"

definition GetMD5Hash :: "byte list \<Rightarrow> heap \<Rightarrow> string \<times> heap" where
  "GetMD5Hash data h = (case New MD5 h of (p, h') \<Rightarrow> calcHash p data h')"

definition GetSHA1Hash :: "byte list \<Rightarrow> heap \<Rightarrow> string \<times> heap" where
  "GetSHA1Hash data h = (case New SHA1 h of (p, h') \<Rightarrow> calcHash p data h')"

definition GetSHA256Hash :: "byte list \<Rightarrow> heap \<Rightarrow> string \<times> heap" where
  "GetSHA256Hash data h = (case New SHA256 h of (p, h') \<Rightarrow> calcHash p data h')"

text \<open>A heap with no object yet, to run the model on.\<close>

definition empty_heap :: heap where
  "empty_heap = \<lparr>cells = (\<lambda>p. \<lparr>alg = MD5, absorbed = []\<rparr>), top = 0\<rparr>"

section \<open>What a call of the module returns\<close>

text \<open>
  A call returns the results of its signature, or it panics. The one statement of the file
  that could panic is the array access \<^verbatim>\<open>occurences[int(char)]\<close> of \<^verbatim>\<open>GetEntropy\<close>, whose index
  Go checks against the length of the array; the loop is repeated here with that check
  written out. (\<^verbatim>\<open>alg.Write\<close> returns a count and an error that \<^verbatim>\<open>calcHash\<close> drops;
  \<^verbatim>\<open>regexp.MustCompile\<close> runs once, when the package is initialised, on the two patterns above.)
\<close>

datatype panic = IndexOutOfRange nat nat

definition count_bytes_checked :: "byte list \<Rightarrow> panic + int list" where
  "count_bytes_checked data =
     fold (\<lambda>char acc.
             case acc of
               Inl p \<Rightarrow> Inl p
             | Inr occurences \<Rightarrow>
                 if unat char < length occurences
                 then Inr (occurences[unat char := occurences ! unat char + 1])
                 else Inl (IndexOutOfRange (unat char) (length occurences)))
       data (Inr (replicate 256 0))"

definition GetEntropy_checked :: "float_ops \<Rightarrow> byte list \<Rightarrow> panic + real" where
  "GetEntropy_checked F data =
     (if length data = 0 then Inr 0
      else
        case count_bytes_checked data of
          Inl p \<Rightarrow> Inl p
        | Inr occurences \<Rightarrow>
            Inr (fst (fold (entropy_step F (int (length data))) occurences (0, 0))))"

text \<open>What the exported and unexported operations hand back: a \<^verbatim>\<open>float64\<close>, a \<^verbatim>\<open>string\<close>, a
  \<^verbatim>\<open>bool\<close>, or a \<^verbatim>\<open>string\<close> with an \<^verbatim>\<open>error\<close>.\<close>

datatype 'e returned =
    RetFloat64 real
  | RetString string
  | RetBool bool
  | RetStringError string "'e error option"
  | Panicked panic

text \<open>What surrounds a call: the Unicode tables, the floating-point arithmetic, the fuzzy-hash
  library and the heap of hash objects.\<close>

record 'e world =
  tables :: unicode_tables
  arith :: float_ops
  fuzzy :: "byte list \<Rightarrow> string \<times> 'e error option"
  objects :: heap

datatype operation =
    Call_GetEntropy
  | Call_GetFuzzyHash
  | Call_GetMD5Hash
  | Call_GetSHA1Hash
  | Call_GetSHA256Hash
  | Call_isValidFuncName
  | Call_isValidDosFilename

fun call :: "'e world \<Rightarrow> operation \<Rightarrow> byte list \<Rightarrow> 'e returned" where
  "call W Call_GetEntropy data =
     (case GetEntropy_checked (arith W) data of Inl p \<Rightarrow> Panicked p | Inr x \<Rightarrow> RetFloat64 x)"
| "call W Call_GetFuzzyHash data =
     RetStringError (fst (GetFuzzyHash (fuzzy W) data)) (snd (GetFuzzyHash (fuzzy W) data))"
| "call W Call_GetMD5Hash data = RetString (fst (GetMD5Hash data (objects W)))"
| "call W Call_GetSHA1Hash data = RetString (fst (GetSHA1Hash data (objects W)))"
| "call W Call_GetSHA256Hash data = RetString (fst (GetSHA256Hash data (objects W)))"
| "call W Call_isValidFuncName data = RetBool (isValidFuncName (tables W) data)"
| "call W Call_isValidDosFilename data = RetBool (isValidDosFilename (tables W) data)"

text \<open>A call fails when it panics or returns an error that is not \<^verbatim>\<open>nil\<close>.\<close>

fun fails :: "'e returned \<Rightarrow> bool" where
  "fails (Panicked p) = True"
| "fails (RetStringError s (Some e)) = True"
| "fails r = False"

definition stub_world :: "string world" where
  "stub_world =
     \<lparr>tables = latin1_tables, arith = exact_arith, fuzzy = stub_FuzzyBytes,
      objects = empty_heap\<rparr>"

section \<open>Properties of the validators\<close>

lemmas utf8_consts = utf8_xx_def utf8_as_def utf8_s1_def utf8_s2_def utf8_s3_def utf8_s4_def
  utf8_s5_def utf8_s6_def utf8_s7_def locb_def hicb_def maskx_def mask2_def mask3_def mask4_def

lemma first_ascii: "b < 0x80 \<Longrightarrow> utf8_first b = 0xF0"
  by (simp add: utf8_first_def utf8_consts)

lemma first_cases:
  "utf8_first b \<in> {0xF0, 0xF1, 0x02, 0x13, 0x03, 0x23, 0x34, 0x04, 0x44}"
  by (simp add: utf8_first_def utf8_consts)

lemma sz_cases: "utf8_first b < 0xF0 \<Longrightarrow> unat (utf8_first b AND 7) \<in> {2,3,4}"
  using first_cases [of b] by auto

lemma DecodeRune_width_le: "snd (DecodeRune p) \<le> length p"
proof (cases "p = []")
  case True then show ?thesis by (simp add: DecodeRune_def)
next
  case False
  then have n: "1 \<le> length p" by (cases p) auto
  show ?thesis
  proof (cases "utf8_first (p ! 0) \<ge> 0xF0")
    case True
    then show ?thesis using n by (simp add: DecodeRune_def Let_def utf8_as_def)
  next
    case F: False
    then have "utf8_first (p ! 0) < 0xF0" by simp
    then have "unat (utf8_first (p ! 0) AND 7) \<in> {2,3,4}" by (rule sz_cases)
    then show ?thesis using n F
      by (auto simp add: DecodeRune_def Let_def utf8_as_def)
  qed
qed

lemma DecodeRune_width_pos: "p \<noteq> [] \<Longrightarrow> 0 < snd (DecodeRune p)"
  by (simp add: DecodeRune_def Let_def)


lemma DecodeRune_ascii: "b0 < 0x80 \<Longrightarrow> DecodeRune (b0 # rest) = (ucast b0, 1)"
  by (simp add: DecodeRune_def Let_def first_ascii utf8_as_def)

lemma first_bad: "0x80 \<le> b \<Longrightarrow> b < 0xC2 \<or> 0xF4 < b \<Longrightarrow> utf8_first b = 0xF1"
  apply (simp add: utf8_first_def utf8_consts)
  apply unat_arith
  done

lemma DecodeRune_bad: "0x80 \<le> b0 \<Longrightarrow> b0 < 0xC2 \<or> 0xF4 < b0 \<Longrightarrow> DecodeRune (b0 # rest) = (RuneError, 1)"
  by (simp add: DecodeRune_def Let_def first_bad utf8_as_def RuneError_def)

lemma DecodeRune_sz2:
  assumes "utf8_first b0 = x" "x < 0xF0" "unat (x AND 7) = 2"
     "acceptRanges (unat (drop_bit 4 x)) = (lo, hi)"
  shows "in_ranges rest [(lo, hi)] \<Longrightarrow> snd (DecodeRune (b0 # rest)) = 2"
    and "\<not> in_ranges rest [(lo, hi)] \<Longrightarrow> DecodeRune (b0 # rest) = (RuneError, 1)"
  using assms by (cases rest; auto simp add: DecodeRune_def Let_def utf8_as_def)+

lemma DecodeRune_sz3:
  assumes "utf8_first b0 = x" "x < 0xF0" "unat (x AND 7) = 3"
     "acceptRanges (unat (drop_bit 4 x)) = (lo, hi)"
  shows "in_ranges rest [(lo, hi), (0x80, 0xBF)] \<Longrightarrow> snd (DecodeRune (b0 # rest)) = 3"
    and "\<not> in_ranges rest [(lo, hi), (0x80, 0xBF)] \<Longrightarrow> DecodeRune (b0 # rest) = (RuneError, 1)"
proof -
  have c: "rest = [] \<or> (\<exists>b1. rest = [b1]) \<or> (\<exists>b1 b2 r. rest = b1 # b2 # r)"
    by (cases rest; cases "tl rest"; auto)
  show "in_ranges rest [(lo, hi), (0x80, 0xBF)] \<Longrightarrow> snd (DecodeRune (b0 # rest)) = 3"
    using assms c by (auto simp add: DecodeRune_def Let_def utf8_as_def locb_def hicb_def)
  show "\<not> in_ranges rest [(lo, hi), (0x80, 0xBF)] \<Longrightarrow> DecodeRune (b0 # rest) = (RuneError, 1)"
    using assms c by (auto simp add: DecodeRune_def Let_def utf8_as_def locb_def hicb_def)
qed

lemma DecodeRune_sz4:
  assumes "utf8_first b0 = x" "x < 0xF0" "unat (x AND 7) = 4"
     "acceptRanges (unat (drop_bit 4 x)) = (lo, hi)"
  shows "in_ranges rest [(lo, hi), (0x80, 0xBF), (0x80, 0xBF)] \<Longrightarrow> snd (DecodeRune (b0 # rest)) = 4"
    and "\<not> in_ranges rest [(lo, hi), (0x80, 0xBF), (0x80, 0xBF)] \<Longrightarrow> DecodeRune (b0 # rest) = (RuneError, 1)"
proof -
  have c: "rest = [] \<or> (\<exists>b1. rest = [b1]) \<or> (\<exists>b1 b2. rest = [b1, b2]) \<or> (\<exists>b1 b2 b3 r. rest = b1 # b2 # b3 # r)"
    by (cases rest; cases "tl rest"; cases "tl (tl rest)"; auto)
  show "in_ranges rest [(lo, hi), (0x80, 0xBF), (0x80, 0xBF)] \<Longrightarrow> snd (DecodeRune (b0 # rest)) = 4"
    using assms c by (auto simp add: DecodeRune_def Let_def utf8_as_def locb_def hicb_def)
  show "\<not> in_ranges rest [(lo, hi), (0x80, 0xBF), (0x80, 0xBF)] \<Longrightarrow> DecodeRune (b0 # rest) = (RuneError, 1)"
    using assms c by (auto simp add: DecodeRune_def Let_def utf8_as_def locb_def hicb_def)
qed

lemma first_s1: "0xC2 \<le> b \<Longrightarrow> b \<le> 0xDF \<Longrightarrow> utf8_first b = 0x02"
  apply (simp add: utf8_first_def utf8_consts) apply unat_arith done
lemma first_s2: "utf8_first 0xE0 = 0x13"
  by (simp add: utf8_first_def utf8_consts)
lemma first_s3a: "0xE1 \<le> b \<Longrightarrow> b \<le> 0xEC \<Longrightarrow> utf8_first b = 0x03"
  apply (simp add: utf8_first_def utf8_consts) apply unat_arith done
lemma first_s4: "utf8_first 0xED = 0x23"
  by (simp add: utf8_first_def utf8_consts)
lemma first_s3b: "0xEE \<le> b \<Longrightarrow> b \<le> 0xEF \<Longrightarrow> utf8_first b = 0x03"
  apply (simp add: utf8_first_def utf8_consts) apply unat_arith done
lemma first_s5: "utf8_first 0xF0 = 0x34"
  by (simp add: utf8_first_def utf8_consts)
lemma first_s6: "0xF1 \<le> b \<Longrightarrow> b \<le> 0xF3 \<Longrightarrow> utf8_first b = 0x04"
  apply (simp add: utf8_first_def utf8_consts) apply unat_arith done
lemma first_s7: "utf8_first 0xF4 = 0x44"
  by (simp add: utf8_first_def utf8_consts)

lemma acc0: "acceptRanges 0 = (0x80, 0xBF)" by (simp add: acceptRanges_def locb_def hicb_def)
lemma acc1: "acceptRanges (Suc 0) = (0xA0, 0xBF)" by (simp add: acceptRanges_def locb_def hicb_def)
lemma acc2: "acceptRanges 2 = (0x80, 0x9F)" by (simp add: acceptRanges_def locb_def hicb_def)
lemma acc3: "acceptRanges 3 = (0x90, 0xBF)" by (simp add: acceptRanges_def locb_def hicb_def)
lemma acc4: "acceptRanges 4 = (0x80, 0x8F)" by (simp add: acceptRanges_def locb_def hicb_def)

lemma DecodeRune_wf:
  assumes "p \<noteq> []"
  shows "wf_prefix_len p \<noteq> 0 \<Longrightarrow> snd (DecodeRune p) = wf_prefix_len p"
    and "wf_prefix_len p = 0 \<Longrightarrow> DecodeRune p = (RuneError, 1)"
proof -
  obtain b0 rest where p: "p = b0 # rest" using assms by (cases p) auto
  consider (a) "b0 < 0x80" | (bad) "0x80 \<le> b0" "b0 < 0xC2 \<or> 0xF4 < b0"
    | (s1) "0xC2 \<le> b0" "b0 \<le> 0xDF" | (s2) "b0 = 0xE0" | (s3a) "0xE1 \<le> b0" "b0 \<le> 0xEC"
    | (s4) "b0 = 0xED" | (s3b) "0xEE \<le> b0" "b0 \<le> 0xEF" | (s5) "b0 = 0xF0"
    | (s6) "0xF1 \<le> b0" "b0 \<le> 0xF3" | (s7) "b0 = 0xF4"
    by unat_arith
  then have "(wf_prefix_len p \<noteq> 0 \<longrightarrow> snd (DecodeRune p) = wf_prefix_len p) \<and>
        (wf_prefix_len p = 0 \<longrightarrow> DecodeRune p = (RuneError, 1))"
  proof cases
    case a
    then have "b0 \<le> 0x7F" by unat_arith
    with a show ?thesis by (simp add: p wf_prefix_len_def tail_ranges_def DecodeRune_ascii)
  next
    case bad
    then have "\<not> b0 \<le> 0x7F" "\<not> (0xC2 \<le> b0 \<and> b0 \<le> 0xDF)" "b0 \<noteq> 0xE0" "\<not> (0xE1 \<le> b0 \<and> b0 \<le> 0xEC)"
      "b0 \<noteq> 0xED" "\<not> (0xEE \<le> b0 \<and> b0 \<le> 0xEF)" "b0 \<noteq> 0xF0" "\<not> (0xF1 \<le> b0 \<and> b0 \<le> 0xF3)" "b0 \<noteq> 0xF4"
      by unat_arith+
    with bad show ?thesis by (simp add: p wf_prefix_len_def tail_ranges_def DecodeRune_bad)
  next
    case s1
    then have n: "\<not> b0 \<le> 0x7F" by unat_arith
    have x: "utf8_first b0 = 0x02" using s1 by (rule first_s1)
    show ?thesis using DecodeRune_sz2 [OF x, of "0x80" "0xBF" rest]
      by (simp add: p wf_prefix_len_def tail_ranges_def acc0 n s1)
  next
    case s2
    show ?thesis using s2 DecodeRune_sz3 [OF first_s2, of "0xA0" "0xBF" rest]
      by (simp add: p wf_prefix_len_def tail_ranges_def acc1)
  next
    case s3a
    then have n: "\<not> b0 \<le> 0x7F" "\<not> (0xC2 \<le> b0 \<and> b0 \<le> 0xDF)" "b0 \<noteq> 0xE0" by unat_arith+
    have x: "utf8_first b0 = 0x03" using s3a by (rule first_s3a)
    show ?thesis using DecodeRune_sz3 [OF x, of "0x80" "0xBF" rest]
      by (simp add: p wf_prefix_len_def tail_ranges_def acc0 n s3a)
  next
    case s4
    show ?thesis using s4 DecodeRune_sz3 [OF first_s4, of "0x80" "0x9F" rest]
      by (simp add: p wf_prefix_len_def tail_ranges_def acc2)
  next
    case s3b
    then have n: "\<not> b0 \<le> 0x7F" "\<not> (0xC2 \<le> b0 \<and> b0 \<le> 0xDF)" "b0 \<noteq> 0xE0"
       "\<not> (0xE1 \<le> b0 \<and> b0 \<le> 0xEC)" "b0 \<noteq> 0xED" by unat_arith+
    have x: "utf8_first b0 = 0x03" using s3b by (rule first_s3b)
    show ?thesis using DecodeRune_sz3 [OF x, of "0x80" "0xBF" rest]
      by (simp add: p wf_prefix_len_def tail_ranges_def acc0 n s3b)
  next
    case s5
    show ?thesis using s5 DecodeRune_sz4 [OF first_s5, of "0x90" "0xBF" rest]
      by (simp add: p wf_prefix_len_def tail_ranges_def acc3)
  next
    case s6
    then have n: "\<not> b0 \<le> 0x7F" "\<not> (0xC2 \<le> b0 \<and> b0 \<le> 0xDF)" "b0 \<noteq> 0xE0"
       "\<not> (0xE1 \<le> b0 \<and> b0 \<le> 0xEC)" "b0 \<noteq> 0xED" "\<not> (0xEE \<le> b0 \<and> b0 \<le> 0xEF)" "b0 \<noteq> 0xF0" by unat_arith+
    have x: "utf8_first b0 = 0x04" using s6 by (rule first_s6)
    show ?thesis using DecodeRune_sz4 [OF x, of "0x80" "0xBF" rest]
      by (simp add: p wf_prefix_len_def tail_ranges_def acc0 n s6)
  next
    case s7
    show ?thesis using s7 DecodeRune_sz4 [OF first_s7, of "0x80" "0x8F" rest]
      by (simp add: p wf_prefix_len_def tail_ranges_def acc4)
  qed
  then show "wf_prefix_len p \<noteq> 0 \<Longrightarrow> snd (DecodeRune p) = wf_prefix_len p"
    and "wf_prefix_len p = 0 \<Longrightarrow> DecodeRune p = (RuneError, 1)" by simp_all
qed




lemma step_eq: "i < length s \<Longrightarrow> step s i = DecodeRune (drop i s)"
proof -
  assume i: "i < length s"
  then obtain b rest where d: "drop i s = b # rest" by (cases "drop i s") auto
  then have b: "s ! i = b" using i by (metis nth_via_drop)
  show ?thesis
  proof (cases "b < 0x80")
    case True
    then show ?thesis using i b d by (simp add: step_def RuneSelf_def DecodeRune_ascii)
  next
    case False
    then show ?thesis using i b d by (simp add: step_def RuneSelf_def)
  qed
qed

lemma step_end: "\<not> i < length s \<Longrightarrow> snd (step s i) = 0"
  by (simp add: step_def)

lemma plus_iter_Nil: "plus_iter f k [] = []"
  by (induction k) simp_all

lemma runes_Nil: "runes [] = []" by (simp add: runes.simps)

lemma runes_drop:
  "i < length s \<Longrightarrow> runes (drop i s) = fst (step s i) # runes (drop (i + snd (step s i)) s)"
  by (subst runes.simps) (simp add: step_eq add.commute)

lemma plus_class_reaches_end:
  "i \<le> length s \<Longrightarrow> length s - i \<le> k \<Longrightarrow>
   length s \<in> set (plus_iter (ends T (OpCharClass items) s) k [i]) \<longleftrightarrow>
   i < length s \<and> list_all (\<lambda>r. list_ex (item_matches T r) items) (runes (drop i s))"
proof -
  define f where "f = ends T (OpCharClass items) s"
  define P where "P = (\<lambda>r. list_ex (item_matches T r) items)"
  have f: "f j = (if snd (step s j) \<noteq> 0 \<and> P (fst (step s j)) then [j + snd (step s j)] else [])" for j
    by (simp add: f_def P_def Let_def)
  have "i \<le> length s \<Longrightarrow> length s - i \<le> k \<Longrightarrow>
     length s \<in> set (plus_iter f k [i]) \<longleftrightarrow> i < length s \<and> list_all P (runes (drop i s))"
  proof (induction k arbitrary: i)
    case 0
    then show ?case by simp
  next
    case (Suc k)
    show ?case
    proof (cases "i < length s")
      case False
      then show ?thesis by (simp add: f step_end plus_iter_Nil)
    next
      case True
      let ?w = "snd (step s i)"
      have w: "0 < ?w" "i + ?w \<le> length s"
        using True DecodeRune_width_pos [of "drop i s"] DecodeRune_width_le [of "drop i s"]
        by (simp_all add: step_eq)
      show ?thesis
      proof (cases "P (fst (step s i))")
        case False
        then show ?thesis using True by (simp add: f plus_iter_Nil runes_drop)
      next
        case P: True
        have ih: "length s \<in> set (plus_iter f k [i + ?w]) \<longleftrightarrow>
           i + ?w < length s \<and> list_all P (runes (drop (i + ?w) s))"
          using Suc.prems w by (intro Suc.IH) auto
        have nxt: "f i = [i + ?w]" using P w by (simp add: f)
        show ?thesis
        proof (cases "i + ?w = length s")
          case e: True
          then show ?thesis using True P nxt by (simp add: runes_drop runes_Nil)
        next
          case ne: False
          then have "i + ?w < length s" using w by simp
          then show ?thesis using True P nxt ih ne by (simp add: runes_drop [OF True])
        qed
      qed
    qed
  qed
  then show "i \<le> length s \<Longrightarrow> length s - i \<le> k \<Longrightarrow>
   length s \<in> set (plus_iter (ends T (OpCharClass items) s) k [i]) \<longleftrightarrow>
   i < length s \<and> list_all (\<lambda>r. list_ex (item_matches T r) items) (runes (drop i s))"
    by (simp add: f_def P_def)
qed

lemma boundaries_0: "0 \<in> set (boundaries s 0)"
  by (subst boundaries.simps) simp

lemma anchored_ends:
  "ends T (OpConcat [OpBeginText, OpPlus (OpCharClass items), OpEndText]) s i \<noteq> [] \<longleftrightarrow>
   i = 0 \<and> length s \<in> set (plus_iter (ends T (OpCharClass items) s) (Suc (length s)) [0])"
proof (cases "i = 0")
  case False then show ?thesis by simp
next
  case True
  have "concat (map (\<lambda>j. if j = length s then [j] else []) xs) \<noteq> [] \<longleftrightarrow> length s \<in> set xs" for xs
    by (induction xs) auto
  then show ?thesis using True by simp
qed

lemma Match_anchored_plus:
  "Match T (OpConcat [OpBeginText, OpPlus (OpCharClass items), OpEndText]) s \<longleftrightarrow>
   s \<noteq> [] \<and> list_all (\<lambda>r. list_ex (item_matches T r) items) (runes s)"
proof -
  have "Match T (OpConcat [OpBeginText, OpPlus (OpCharClass items), OpEndText]) s \<longleftrightarrow>
    length s \<in> set (plus_iter (ends T (OpCharClass items) s) (Suc (length s)) [0])"
    unfolding Match_def list_ex_iff anchored_ends using boundaries_0 [of s] by auto
  also have "\<dots> \<longleftrightarrow> 0 < length s \<and> list_all (\<lambda>r. list_ex (item_matches T r) items) (runes (drop 0 s))"
    by (rule plus_class_reaches_end) simp_all
  finally show ?thesis by simp
qed



lemma in_ranges_nth:
  "in_ranges bs rs \<Longrightarrow> k < length rs \<Longrightarrow> k < length bs \<and> fst (rs ! k) \<le> bs ! k \<and> bs ! k \<le> snd (rs ! k)"
proof (induction bs rs arbitrary: k rule: in_ranges.induct)
  case (3 b bs r rs)
  then show ?case by (cases k) auto
qed simp_all

lemma tail_ranges_lo: "tail_ranges b0 = Some rs \<Longrightarrow> r \<in> set rs \<Longrightarrow> 0x80 \<le> fst r"
  by (auto simp: tail_ranges_def split: if_splits)

lemma wf_prefix_len_cont:
  assumes "0 < k" "k < wf_prefix_len p"
  shows "0x80 \<le> p ! k"
proof -
  obtain b0 rest where p: "p = b0 # rest" using assms by (cases p) (auto simp: wf_prefix_len_def)
  obtain j where k: "k = Suc j" using assms(1) by (cases k) auto
  obtain rs where rs: "tail_ranges b0 = Some rs" "in_ranges rest rs" "wf_prefix_len p = Suc (length rs)"
    using assms(2) unfolding p wf_prefix_len_def
    by (auto split: option.splits if_splits)
  have j: "j < length rs" using assms(2) rs(3) k by simp
  have "0x80 \<le> fst (rs ! j)" using tail_ranges_lo [OF rs(1)] j by simp
  with in_ranges_nth [OF rs(2) j] have "0x80 \<le> rest ! j"
    by (meson order_trans)
  then show ?thesis by (simp add: p k)
qed

lemma DecodeRune_cont:
  assumes "0 < k" "k < snd (DecodeRune p)"
  shows "0x80 \<le> p ! k"
proof -
  have ne: "p \<noteq> []" using assms by (auto simp: DecodeRune_def)
  show ?thesis
  proof (cases "wf_prefix_len p = 0")
    case True
    then show ?thesis using DecodeRune_wf(2) [OF ne] assms by simp
  next
    case False
    then show ?thesis using DecodeRune_wf(1) [OF ne] assms wf_prefix_len_cont by simp
  qed
qed

lemma DecodeRune_ascii_nth: "p \<noteq> [] \<Longrightarrow> p ! 0 < 0x80 \<Longrightarrow> DecodeRune p = (ucast (p ! 0), 1)"
  by (cases p) (simp_all add: DecodeRune_ascii)

lemma ascii_byte_in_runes: "b \<in> set p \<Longrightarrow> b < 0x80 \<Longrightarrow> ucast b \<in> set (runes p)"
proof (induction p rule: runes.induct)
  case (1 p)
  then have ne: "p \<noteq> []" by auto
  let ?w = "snd (DecodeRune p)"
  have r: "runes p = fst (DecodeRune p) # runes (drop ?w p)"
    using ne by (subst runes.simps) simp
  have "set p = set (take ?w p) \<union> set (drop ?w p)"
    by (metis append_take_drop_id set_append)
  with 1 consider "b \<in> set (take ?w p)" | "b \<in> set (drop ?w p)" by auto
  then show ?case
  proof cases
    case 2
    then show ?thesis using 1 ne r by simp
  next
    case 1
    then obtain k where k: "k < ?w" "k < length p" "p ! k = b"
      by (auto simp: in_set_conv_nth)
    have "k = 0"
    proof (rule ccontr)
      assume "k \<noteq> 0"
      then have "0x80 \<le> p ! k" using k DecodeRune_cont [of k p] by simp
      with k \<open>b < 0x80\<close> show False by simp
    qed
    then have "DecodeRune p = (ucast b, 1)" using k ne \<open>b < 0x80\<close> DecodeRune_ascii_nth by auto
    then show ?thesis using r by simp
  qed
qed

lemma invalid_has_RuneError: "\<not> valid_utf8 p \<Longrightarrow> RuneError \<in> set (runes p)"
proof (induction p rule: valid_utf8.induct)
  case (1 p)
  then have ne: "p \<noteq> []" by (auto simp: valid_utf8.simps)
  have r: "runes p = fst (DecodeRune p) # runes (drop (snd (DecodeRune p)) p)"
    using ne by (subst runes.simps) simp
  show ?case
  proof (cases "wf_prefix_len p = 0")
    case True
    then show ?thesis using DecodeRune_wf(2) [OF ne] r by simp
  next
    case False
    then have w: "snd (DecodeRune p) = wf_prefix_len p" using DecodeRune_wf(1) [OF ne] by simp
    have "\<not> valid_utf8 (drop (wf_prefix_len p) p)"
      using "1.prems" ne False by (subst (asm) valid_utf8.simps) simp
    then have "RuneError \<in> set (runes (drop (wf_prefix_len p) p))"
      using "1.IH" ne False by simp
    then show ?thesis using r w by simp
  qed
qed

lemma runes_ascii: "\<forall>b\<in>set p. b < 0x80 \<Longrightarrow> runes p = map ucast p"
proof (induction p)
  case Nil
  then show ?case by (simp add: runes.simps)
next
  case (Cons b p)
  then show ?case by (subst runes.simps) (simp add: DecodeRune_ascii)
qed



lemma latin1_tables_conformant: "unicode_conformant latin1_tables"
  unfolding unicode_conformant_def latin1_tables_def is_control_def RuneError_def
  apply simp
  apply (intro allI impI conjI)
  apply unat_arith+
  done

lemma funcName_class:
  "list_ex (item_matches T r) [UnicodeL, UnicodeN, Lit CHR ''_'', Lit CHR ''?'', Lit CHR ''@'',
         Lit CHR ''$'', Lit CHR ''('', Lit CHR '')''] \<longleftrightarrow> cat_L T r \<or> cat_N T r \<or> r \<in> symbol_punct"
  by (auto simp add: symbol_punct_def)

lemma isValidFuncName_iff:
  "isValidFuncName T name \<longleftrightarrow>
     name \<noteq> [] \<and> (\<forall>r\<in>set (runes name). cat_L T r \<or> cat_N T r \<or> r \<in> symbol_punct)"
  unfolding isValidFuncName_def validFuncName_def Match_anchored_plus funcName_class
  by (simp add: list_all_iff)

lemma dosName_class:
  "list_ex (item_matches T r) [UnicodeL, UnicodeN, Lit CHR ''!'', Lit CHR ''/'', Lit CHR ''/'',
         Lit CHR ''$'', Lit CHR ''%'', Lit CHR ''&'', Lit CHR 0x27, Lit CHR ''('', Lit CHR '')'',
         Lit CHR 0x60, Lit CHR ''-'', Lit CHR ''@'', Lit CHR ''^'', Lit CHR ''_'', Lit CHR ''{'',
         Lit CHR ''}'', Lit CHR ''~'', Lit CHR ''+'', Lit CHR '','', Lit CHR ''.'', Lit CHR '';'',
         Lit CHR ''='', Lit CHR ''['', Lit CHR '']''] \<longleftrightarrow> cat_L T r \<or> cat_N T r \<or> r \<in> dos_punct"
  by (auto simp add: dos_punct_def)

lemma isValidDosFilename_iff:
  "isValidDosFilename T name \<longleftrightarrow>
     name \<noteq> [] \<and> (\<forall>r\<in>set (runes name). cat_L T r \<or> cat_N T r \<or> r \<in> dos_punct)"
  unfolding isValidDosFilename_def validDosName_def Match_anchored_plus dosName_class
  by (simp add: list_all_iff)

lemma conformant_letter:
  "unicode_conformant T \<Longrightarrow> (0x41 \<le> r \<and> r \<le> 0x5A) \<or> (0x61 \<le> r \<and> r \<le> 0x7A) \<Longrightarrow> cat_L T r"
proof -
  assume c: "unicode_conformant T" and l: "(0x41 \<le> r \<and> r \<le> 0x5A) \<or> (0x61 \<le> r \<and> r \<le> 0x7A)"
  then have "r < 0x80" by unat_arith
  with c l show ?thesis unfolding unicode_conformant_def by blast
qed

lemma conformant_digit:
  "unicode_conformant T \<Longrightarrow> 0x30 \<le> r \<Longrightarrow> r \<le> 0x39 \<Longrightarrow> cat_N T r"
proof -
  assume c: "unicode_conformant T" and l: "0x30 \<le> r" "r \<le> 0x39"
  then have "r < 0x80" by unat_arith
  with c l show ?thesis unfolding unicode_conformant_def by blast
qed

lemma conformant_control:
  "unicode_conformant T \<Longrightarrow> is_control r \<Longrightarrow> \<not> cat_L T r \<and> \<not> cat_N T r"
  unfolding unicode_conformant_def by blast

lemma conformant_space:
  "unicode_conformant T \<Longrightarrow> \<not> cat_L T 0x20 \<and> \<not> cat_N T 0x20"
  unfolding unicode_conformant_def by auto

lemma control_not_punct: "is_control r \<Longrightarrow> r \<notin> dos_punct \<and> r \<notin> symbol_punct"
  unfolding is_control_def dos_punct_def symbol_punct_def by auto

lemma unat_ucast_byte: "unat (ucast (b :: byte) :: rune) = unat b"
proof -
  have "unat b < 2 ^ 8" using unsigned_less [of b] by simp
  then have "unat b < 2 ^ 32" by simp
  then show ?thesis by (simp add: unsigned_ucast_eq take_bit_nat_eq_self)
qed

text \<open>
  Claim C2. \<^verbatim>\<open>isValidFuncName\<close> accepts a token exactly when it is non-empty and every one of
  its characters is a letter (\<^verbatim>\<open>\pL\<close>), a number (\<^verbatim>\<open>\pN\<close>) or one of \<^verbatim>\<open>_ ? @ $ ( )\<close>. It accepts
  \<^verbatim>\<open>CreateFileA\<close> and rejects the empty token and \<^verbatim>\<open>foo bar\<close>. The characters of a token are
  the runes the matcher decodes from it; the category tables are any tables that agree
  with Unicode on ASCII, on the control characters and on U+FFFD.
\<close>

theorem isValidFuncName_charset:
  assumes "unicode_conformant T"
  shows "(isValidFuncName T name \<longleftrightarrow>
            name \<noteq> [] \<and> (\<forall>r\<in>set (runes name). cat_L T r \<or> cat_N T r \<or> r \<in> symbol_punct))
       \<and> isValidFuncName T (bytes_of ''CreateFileA'')
       \<and> \<not> isValidFuncName T []
       \<and> \<not> isValidFuncName T (bytes_of ''foo bar'')"
proof (intro conjI)
  show "isValidFuncName T name \<longleftrightarrow>
          name \<noteq> [] \<and> (\<forall>r\<in>set (runes name). cat_L T r \<or> cat_N T r \<or> r \<in> symbol_punct)"
    by (rule isValidFuncName_iff)
  have "runes (bytes_of ''CreateFileA'') = map ucast (bytes_of ''CreateFileA'')"
    by (rule runes_ascii) (simp add: bytes_of_def)
  then show "isValidFuncName T (bytes_of ''CreateFileA'')"
    unfolding isValidFuncName_iff
    by (simp add: bytes_of_def conformant_letter [OF assms])
  show "\<not> isValidFuncName T []" by (simp add: isValidFuncName_iff)
  have "runes (bytes_of ''foo bar'') = map ucast (bytes_of ''foo bar'')"
    by (rule runes_ascii) (simp add: bytes_of_def)
  then show "\<not> isValidFuncName T (bytes_of ''foo bar'')"
    unfolding isValidFuncName_iff using conformant_space [OF assms]
    by (simp add: bytes_of_def symbol_punct_def)
qed


theorem isValidFuncName_charset_witness:
  "unicode_conformant latin1_tables
   \<and> isValidFuncName latin1_tables [0x3F, 0x66, 0xC3, 0xA9, 0x40, 0x40, 0x31]
   \<and> \<not> isValidFuncName latin1_tables [0x66, 0xC3, 0x28]
   \<and> isValidFuncName latin1_tables (bytes_of ''CreateFileA'')
   \<and> \<not> isValidFuncName latin1_tables []
   \<and> \<not> isValidFuncName latin1_tables (bytes_of ''foo bar'')"
proof -
  have r1: "runes [0x3F, 0x66, 0xC3, 0xA9, 0x40, 0x40, 0x31] = [0x3F, 0x66, 0xE9, 0x40, 0x40, 0x31]"
    by code_simp
  have r2: "runes [0x66, 0xC3, 0x28] = [0x66, 0xFFFD, 0x28]"
    by code_simp
  show ?thesis
    using isValidFuncName_charset [OF latin1_tables_conformant, of "[0x3F, 0x66, 0xC3, 0xA9, 0x40, 0x40, 0x31]"]
      isValidFuncName_charset [OF latin1_tables_conformant, of "[0x66, 0xC3, 0x28]"]
      latin1_tables_conformant
    by (simp add: r1 r2 latin1_tables_def symbol_punct_def)
qed

text \<open>
  Claim C3. \<^verbatim>\<open>isValidDosFilename\<close> accepts a token exactly when it is non-empty and every one
  of its characters is a letter, a number or one of
  \<^verbatim>\<open>! / $ % & ' ( ) ` - @ ^ _ { } ~ + , . ; = [ ]\<close>. No length bound takes part: a run of any
  positive number of \<^verbatim>\<open>A\<close>s is accepted. \<^verbatim>\<open>KERNEL32.DLL\<close> is accepted, and a token with a null
  byte or a control character (as a byte below \<^verbatim>\<open>0x20\<close> or \<^verbatim>\<open>0x7F\<close>, or as a decoded rune of
  category Cc) is rejected.
\<close>

theorem isValidDosFilename_charset:
  assumes "unicode_conformant T"
  shows "(isValidDosFilename T name \<longleftrightarrow>
            name \<noteq> [] \<and> (\<forall>r\<in>set (runes name). cat_L T r \<or> cat_N T r \<or> r \<in> dos_punct))
       \<and> isValidDosFilename T (bytes_of ''KERNEL32.DLL'')
       \<and> (\<forall>n>0. isValidDosFilename T (replicate n 0x41))
       \<and> ((\<exists>b\<in>set name. b < 0x20 \<or> b = 0x7F) \<longrightarrow> \<not> isValidDosFilename T name)
       \<and> ((\<exists>r\<in>set (runes name). is_control r) \<longrightarrow> \<not> isValidDosFilename T name)"
proof (intro conjI)
  show "isValidDosFilename T name \<longleftrightarrow>
          name \<noteq> [] \<and> (\<forall>r\<in>set (runes name). cat_L T r \<or> cat_N T r \<or> r \<in> dos_punct)"
    by (rule isValidDosFilename_iff)
  have "runes (bytes_of ''KERNEL32.DLL'') = map ucast (bytes_of ''KERNEL32.DLL'')"
    by (rule runes_ascii) (simp add: bytes_of_def)
  then show "isValidDosFilename T (bytes_of ''KERNEL32.DLL'')"
    unfolding isValidDosFilename_iff
    by (simp add: bytes_of_def conformant_letter [OF assms] conformant_digit [OF assms] dos_punct_def)
  show "\<forall>n>0. isValidDosFilename T (replicate n 0x41)"
  proof (intro allI impI)
    fix n :: nat assume "0 < n"
    have "runes (replicate n (0x41 :: byte)) = map ucast (replicate n (0x41 :: byte))"
      by (rule runes_ascii) simp
    then show "isValidDosFilename T (replicate n 0x41)"
      unfolding isValidDosFilename_iff using \<open>0 < n\<close>
      by (auto simp add: conformant_letter [OF assms])
  qed
  show ctl: "(\<exists>r\<in>set (runes name). is_control r) \<longrightarrow> \<not> isValidDosFilename T name"
    unfolding isValidDosFilename_iff
    using conformant_control [OF assms] control_not_punct by blast
  show "(\<exists>b\<in>set name. b < 0x20 \<or> b = 0x7F) \<longrightarrow> \<not> isValidDosFilename T name"
  proof
    assume "\<exists>b\<in>set name. b < 0x20 \<or> b = 0x7F"
    then obtain b where b: "b \<in> set name" "b < 0x20 \<or> b = 0x7F" by blast
    then have lt: "b < 0x80" by unat_arith
    have "is_control (ucast b :: rune)"
      using b(2) unfolding is_control_def
      by (auto simp add: word_less_nat_alt word_le_nat_alt unat_ucast_byte)
    moreover have "ucast b \<in> set (runes name)" using b(1) lt by (rule ascii_byte_in_runes)
    ultimately show "\<not> isValidDosFilename T name" using ctl by blast
  qed
qed


theorem isValidDosFilename_charset_witness:
  "unicode_conformant latin1_tables
   \<and> isValidDosFilename latin1_tables (bytes_of ''KERNEL32.DLL'')
   \<and> (0 < (300 :: nat) \<and> isValidDosFilename latin1_tables (replicate 300 0x41))
   \<and> ((\<exists>b\<in>set [0x41, 0x00, 0x42 :: byte]. b < 0x20 \<or> b = 0x7F)
        \<and> \<not> isValidDosFilename latin1_tables [0x41, 0x00, 0x42])
   \<and> ((\<exists>r\<in>set (runes [0x41, 0xC2, 0x85]). is_control r)
        \<and> \<not> isValidDosFilename latin1_tables [0x41, 0xC2, 0x85])"
proof -
  have r: "runes [0x41, 0xC2, 0x85] = [0x41, 0x85]"
    by code_simp
  have c: "\<exists>r\<in>set (runes [0x41, 0xC2, 0x85]). is_control r"
    by (simp add: r is_control_def)
  have b: "\<exists>b\<in>set [0x41, 0x00, 0x42 :: byte]. b < 0x20 \<or> b = 0x7F"
    by simp
  note t1 = isValidDosFilename_charset [OF latin1_tables_conformant, of "[0x41, 0x00, 0x42]"]
  note t2 = isValidDosFilename_charset [OF latin1_tables_conformant, of "[0x41, 0xC2, 0x85]"]
  have n1: "\<not> isValidDosFilename latin1_tables [0x41, 0x00, 0x42]"
    using t1 b by blast
  have n2: "\<not> isValidDosFilename latin1_tables [0x41, 0xC2, 0x85]"
    using t2 c by blast
  have k: "isValidDosFilename latin1_tables (bytes_of ''KERNEL32.DLL'')"
    using t1 by blast
  have "\<forall>n>0. isValidDosFilename latin1_tables (replicate n 0x41)"
    using t1 by blast
  then have l: "isValidDosFilename latin1_tables (replicate 300 0x41)"
    by simp
  show ?thesis
    using latin1_tables_conformant k l b n1 c n2 by simp
qed

lemma RuneError_not_punct: "RuneError \<notin> symbol_punct \<and> RuneError \<notin> dos_punct"
  by (auto simp add: RuneError_def symbol_punct_def dos_punct_def)

text \<open>
  Claim C10. A token that is not well-formed UTF-8 is rejected by both validators: the
  decoder yields the replacement character \<^verbatim>\<open>U+FFFD\<close> at the malformed byte, and that rune is
  in neither character class.
\<close>

theorem validators_reject_invalid_utf8:
  assumes "unicode_conformant T" and "\<not> valid_utf8 name"
  shows "RuneError \<in> set (runes name) \<and> \<not> isValidFuncName T name \<and> \<not> isValidDosFilename T name"
proof -
  have e: "RuneError \<in> set (runes name)" using assms(2) by (rule invalid_has_RuneError)
  have "\<not> cat_L T RuneError" "\<not> cat_N T RuneError"
    using assms(1) unfolding unicode_conformant_def by blast+
  with e RuneError_not_punct show ?thesis
    unfolding isValidFuncName_iff isValidDosFilename_iff by blast
qed

theorem validators_reject_invalid_utf8_witness:
  "unicode_conformant latin1_tables \<and> \<not> valid_utf8 [0x41, 0xC0, 0x80, 0x42]
   \<and> RuneError \<in> set (runes [0x41, 0xC0, 0x80, 0x42])
   \<and> \<not> isValidFuncName latin1_tables [0x41, 0xC0, 0x80, 0x42]
   \<and> \<not> isValidDosFilename latin1_tables [0x41, 0xC0, 0x80, 0x42]"
proof -
  have v: "\<not> valid_utf8 [0x41, 0xC0, 0x80, 0x42]"
    by code_simp
  show ?thesis
    using validators_reject_invalid_utf8 [OF latin1_tables_conformant v] latin1_tables_conformant v
    by simp
qed

section \<open>Properties of the entropy\<close>


lemma count_fold:
  "length occ = 256 \<Longrightarrow>
   length (fold (\<lambda>char occurences. occurences[unat char := occurences ! unat char + 1]) data occ) = 256
   \<and> (\<forall>k<256. fold (\<lambda>char occurences. occurences[unat char := occurences ! unat char + 1]) data occ ! k
        = occ ! k + int (count_list data (word_of_nat k)))"
  for data :: "byte list"
proof (induction data arbitrary: occ)
  case Nil
  then show ?case by simp
next
  case (Cons c data)
  let ?occ = "occ[unat c := occ ! unat c + 1]"
  have len: "length ?occ = 256" using Cons.prems by simp
  have c: "unat c < 256" using unsigned_less [of c, where ?'a = nat] by simp
  have eq: "(c = word_of_nat k) \<longleftrightarrow> (k = unat c)" if "k < 256" for k
  proof
    assume "c = word_of_nat k"
    then show "k = unat c" using that by (simp add: unat_of_nat)
  next
    assume "k = unat c"
    then show "c = word_of_nat k" by simp
  qed
  have "\<forall>k<256. ?occ ! k + int (count_list data (word_of_nat k))
      = occ ! k + int (count_list (c # data) (word_of_nat k))"
    using Cons.prems c eq by (auto simp add: nth_list_update)
  with Cons.IH [OF len] show ?case by simp
qed

lemma count_bytes_eq:
  "count_bytes data = map (\<lambda>k. int (count_list data (word_of_nat k))) [0..<256]"
proof (rule nth_equalityI)
  show "length (count_bytes data) = length (map (\<lambda>k. int (count_list data (word_of_nat k))) [0..<256])"
    using count_fold [of "replicate 256 0" data] by (simp add: count_bytes_def)
next
  fix i assume "i < length (count_bytes data)"
  then have i: "i < 256" using count_fold [of "replicate 256 0" data] by (simp add: count_bytes_def)
  then show "count_bytes data ! i = map (\<lambda>k. int (count_list data (word_of_nat k))) [0..<256] ! i"
    using count_fold [of "replicate 256 0" data] by (simp add: count_bytes_def)
qed

lemma count_list_replicate: "count_list (replicate n b) w = (if w = b then n else 0)"
  by (induction n) auto

lemma binary64_int: "\<bar>m\<bar> < 2 ^ 53 \<Longrightarrow> binary64 (of_int m)"
  unfolding binary64_def by (rule exI [of _ m], rule exI [of _ 0]) simp

lemma binary64_div_pow2: "\<bar>m\<bar> < 2 ^ 53 \<Longrightarrow> k \<le> 1074 \<Longrightarrow> binary64 (of_int m / 2 ^ k)"
  unfolding binary64_def
  by (rule exI [of _ m], rule exI [of _ "- int k"])
     (simp add: powr_minus powr_realpow divide_inverse)

lemma rnd_0: "binary64_arith F \<Longrightarrow> rnd F 0 = 0"
  using binary64_int [of 0] by (simp add: binary64_arith_def)

lemma rnd_1: "binary64_arith F \<Longrightarrow> rnd F 1 = 1"
  using binary64_int [of 1] by (simp add: binary64_arith_def)

lemma rnd_mono: "binary64_arith F \<Longrightarrow> x \<le> y \<Longrightarrow> rnd F x \<le> rnd F y"
  by (simp add: binary64_arith_def)

lemma Log2_pow2:
  "binary64_arith F \<Longrightarrow> - 1074 \<le> k \<Longrightarrow> k \<le> 1023 \<Longrightarrow> Log2 F (2 powr of_int k) = of_int k"
  by (simp add: binary64_arith_def)

lemma Log2_1: "binary64_arith F \<Longrightarrow> Log2 F 1 = 0"
  using Log2_pow2 [of F 0] by simp

lemma fmsub_exact:
  "binary64_arith F \<Longrightarrow> binary64 (x * y) \<Longrightarrow> fmsub F z x y = rnd F (z - x * y)"
  by (simp add: fmsub_def fsub_def fmul_def binary64_arith_def)

lemma entropy_step_whole:
  assumes F: "binary64_arith F" and n: "0 < n"
  shows "entropy_step F n n (0, p) = (0, 1)"
proof -
  have "1 \<le> rnd F (of_int n)" using rnd_mono [OF F, of 1 "of_int n"] n by (simp add: rnd_1 [OF F])
  then have px: "fdiv F (float64 F n) (float64 F n) = 1"
    by (simp add: fdiv_def float64_def rnd_1 [OF F])
  have "fmsub F 0 1 (Log2 F 1) = 0"
    using binary64_int [of 0] by (simp add: fmsub_exact [OF F] Log2_1 [OF F] rnd_0 [OF F])
  with px n show ?thesis by (simp add: entropy_step_def)
qed

lemma fold_entropy_single:
  assumes F: "binary64_arith F" and n: "0 < n"
  shows "\<forall>x\<in>set xs. x = 0 \<or> x = n \<Longrightarrow> fst (fold (entropy_step F n) xs (0, p)) = 0"
proof (induction xs arbitrary: p)
  case Nil
  then show ?case by simp
next
  case (Cons x xs)
  then consider "x = 0" | "x = n" by auto
  then show ?case
  proof cases
    case 1
    then show ?thesis using Cons by (simp add: entropy_step_def)
  next
    case 2
    then show ?thesis using Cons by (simp add: entropy_step_whole [OF F n])
  qed
qed

text \<open>
  Claim C4. \<^verbatim>\<open>GetEntropy\<close> of the empty buffer is exactly 0, and so is \<^verbatim>\<open>GetEntropy\<close> of \<open>N > 0\<close>
  copies of one byte value: the one non-zero counter gives \<^verbatim>\<open>px = 1.0\<close>, \<^verbatim>\<open>math.Log2(1.0) = 0\<close>,
  and nothing is rounded on the way. This holds for every arithmetic that rounds as binary64
  does, fused or not.
\<close>

theorem GetEntropy_constant_buffer:
  assumes "binary64_arith F"
  shows "GetEntropy F [] = 0 \<and> (\<forall>N>0. \<forall>b. GetEntropy F (replicate N b) = 0)"
proof (intro conjI allI impI)
  show "GetEntropy F [] = 0" by (simp add: GetEntropy_def)
next
  fix N :: nat and b :: byte
  assume N: "0 < N"
  have "\<forall>x\<in>set (count_bytes (replicate N b)). x = 0 \<or> x = int N"
    by (auto simp add: count_bytes_eq count_list_replicate)
  then have "fst (fold (entropy_step F (int N)) (count_bytes (replicate N b)) (0, 0)) = 0"
    using fold_entropy_single [OF assms, of "int N"] N by simp
  then show "GetEntropy F (replicate N b) = 0" using N by (simp add: GetEntropy_def)
qed

lemma exact_arith_ok: "binary64_arith exact_arith"
  by (simp add: binary64_arith_def exact_arith_def)

theorem GetEntropy_constant_buffer_witness:
  "binary64_arith exact_arith \<and> GetEntropy exact_arith [] = 0
   \<and> (0 < (5 :: nat) \<and> GetEntropy exact_arith (replicate 5 0x41) = 0)"
  using GetEntropy_constant_buffer [OF exact_arith_ok] exact_arith_ok by simp



lemma count_list_distinct: "distinct xs \<Longrightarrow> x \<in> set xs \<Longrightarrow> count_list xs x = 1"
  by (induction xs) auto

lemma all_bytes_once:
  fixes data :: "byte list"
  assumes "length data = 256" "distinct data"
  shows "count_list data w = 1"
proof -
  have "card (set data) = 256" using assms by (simp add: distinct_card)
  then have "card (set data) = card (UNIV :: byte set)" by (simp add: card_word)
  then have "set data = UNIV" by (intro card_subset_eq) simp_all
  then show ?thesis using assms(2) by (simp add: count_list_distinct)
qed

lemma count_bytes_all_once:
  assumes "length data = 256" "distinct data"
  shows "count_bytes data = replicate 256 1"
proof -
  have "count_bytes data = map (\<lambda>k. 1) [0..<256]"
    unfolding count_bytes_eq by (rule map_ext) (simp add: all_bytes_once [OF assms])
  also have "\<dots> = replicate (length [0..<256]) 1" by (rule map_replicate_const)
  also have "length [0..<256] = 256" by (simp only: length_upt)
  finally show ?thesis .
qed

lemma two_powr_minus_8: "(2 :: real) powr of_int (- 8) = 1 / 256"
proof -
  have "(2 :: real) powr (- 8) = inverse (2 powr 8)" by (rule powr_minus)
  also have "(2 :: real) powr 8 = 2 ^ 8" by (simp add: powr_numeral)
  finally show ?thesis by simp
qed

lemma entropy_step_256th:
  assumes F: "binary64_arith F" and k: "k < 256"
  shows "entropy_step F 256 1 (of_nat k / 32, p) = (of_nat (Suc k) / 32, 1 / 256)"
proof -
  have one: "float64 F 1 = 1" by (simp add: float64_def rnd_1 [OF F])
  have "binary64 (of_int 256)" by (rule binary64_int) simp
  then have n: "float64 F 256 = 256" using F by (simp add: float64_def binary64_arith_def)
  have "binary64 (of_int 1 / 2 ^ 8)" by (rule binary64_div_pow2) simp_all
  then have px: "fdiv F 1 256 = 1 / 256" using F by (simp add: fdiv_def binary64_arith_def)
  have "Log2 F (2 powr of_int (- 8)) = of_int (- 8)" by (rule Log2_pow2 [OF F]) simp_all
  then have lg: "Log2 F (1 / 256) = - 8" by (simp only: two_powr_minus_8)
  have "binary64 (of_int (- 1) / 2 ^ 5)" by (rule binary64_div_pow2) simp_all
  then have prod: "binary64 ((1 / 256) * (- 8))" by simp
  have "binary64 (of_int (int (Suc k)) / 2 ^ 5)" using k by (intro binary64_div_pow2) simp_all
  then have r: "rnd F (of_nat (Suc k) / 32) = of_nat (Suc k) / 32"
    using F by (simp add: binary64_arith_def)
  have e: "(of_nat k / 32 :: real) - (1 / 256) * (- 8) = of_nat (Suc k) / 32"
    by (simp add: field_simps)
  have "fmsub F (of_nat k / 32) (1 / 256) (- 8) = rnd F (of_nat k / 32 - (1 / 256) * (- 8))"
    by (rule fmsub_exact [OF F prod])
  also have "\<dots> = rnd F (of_nat (Suc k) / 32)" by (simp only: e)
  also note r
  finally have fm: "fmsub F (of_nat k / 32) (1 / 256) (- 8) = of_nat (Suc k) / 32" .
  have "entropy_step F 256 1 (of_nat k / 32, p) =
      (fmsub F (of_nat k / 32) (fdiv F (float64 F 1) (float64 F 256))
         (Log2 F (fdiv F (float64 F 1) (float64 F 256))),
       fdiv F (float64 F 1) (float64 F 256))"
    by (simp add: entropy_step_def Let_def)
  then show ?thesis by (simp only: one n px lg fm)
qed

lemma fold_entropy_uniform:
  assumes F: "binary64_arith F"
  shows "k + m \<le> 256 \<Longrightarrow>
    fst (fold (entropy_step F 256) (replicate m 1) (of_nat k / 32, p)) = of_nat (k + m) / 32"
proof (induction m arbitrary: k p)
  case 0
  then show ?case by simp
next
  case (Suc m)
  then have k: "k < 256" and km: "Suc k + m \<le> 256" by simp_all
  show ?case using Suc.IH [OF km] by (simp add: entropy_step_256th [OF F k])
qed

text \<open>
  Claim C5. On a buffer of length 256 that holds every byte value once, \<^verbatim>\<open>GetEntropy\<close> is exactly
  8: every counter is 1, \<^verbatim>\<open>px\<close> is exactly \<open>1/256\<close>, \<^verbatim>\<open>math.Log2(px)\<close> is exactly \<open>-8\<close>, and the 256
  partial sums \<open>k/32\<close> are representable, so no operation rounds.
\<close>

theorem GetEntropy_all_bytes_once:
  assumes "binary64_arith F" and "length data = 256" and "distinct data"
  shows "GetEntropy F data = 8"
proof -
  have "fst (fold (entropy_step F 256) (replicate 256 1) (of_nat 0 / 32, 0)) = of_nat (0 + 256) / 32"
    by (rule fold_entropy_uniform [OF assms(1)]) simp
  then have "fst (fold (entropy_step F 256) (replicate 256 1) (0, 0)) = 8" by simp
  moreover have "GetEntropy F data = fst (fold (entropy_step F 256) (count_bytes data) (0, 0))"
    using assms(2) by (simp add: GetEntropy_def)
  ultimately show ?thesis by (simp only: count_bytes_all_once [OF assms(2,3)])
qed

lemma distinct_all_bytes: "distinct (map word_of_nat [0..<256] :: byte list)"
proof -
  have "inj_on (word_of_nat :: nat \<Rightarrow> byte) {0..<256}"
  proof (rule inj_onI)
    fix x y :: nat
    assume "x \<in> {0..<256}" "y \<in> {0..<256}" "(word_of_nat x :: byte) = word_of_nat y"
    then have "unat (word_of_nat x :: byte) = unat (word_of_nat y :: byte)" by simp
    with \<open>x \<in> _\<close> \<open>y \<in> _\<close> show "x = y" by (simp add: unat_of_nat)
  qed
  then show ?thesis by (simp only: distinct_map distinct_upt set_upt)
qed

theorem GetEntropy_all_bytes_once_witness:
  "binary64_arith exact_arith \<and> length (map word_of_nat [0..<256] :: byte list) = 256
   \<and> distinct (map word_of_nat [0..<256] :: byte list)
   \<and> GetEntropy exact_arith (map word_of_nat [0..<256]) = 8"
proof -
  have l: "length (map word_of_nat [0..<256] :: byte list) = 256"
    by (simp only: length_map length_upt)
  show ?thesis
    using GetEntropy_all_bytes_once [OF exact_arith_ok l distinct_all_bytes]
      exact_arith_ok l distinct_all_bytes
    by blast
qed

section \<open>Properties of the digests\<close>


lemma GetMD5Hash_eq: "fst (GetMD5Hash data h) = EncodeToString (md5_sum data)"
  by (simp add: GetMD5Hash_def New_def calcHash_def Write_def Sum_def digest_def Let_def)

lemma GetSHA1Hash_eq: "fst (GetSHA1Hash data h) = EncodeToString (sha1_sum data)"
  by (simp add: GetSHA1Hash_def New_def calcHash_def Write_def Sum_def digest_def Let_def)

lemma GetSHA256Hash_eq: "fst (GetSHA256Hash data h) = EncodeToString (sha256_sum data)"
  by (simp add: GetSHA256Hash_def New_def calcHash_def Write_def Sum_def digest_def Let_def)

lemma md5_sum_empty:
  "EncodeToString (md5_sum []) = ''d41d8cd98f00b204e9800998ecf8427e''"
  by code_simp

subsection \<open>SHA-1 of the empty message, stage by stage\<close>

lemma sha1_schedule_add: "sha1_schedule (a + b) w = sha1_schedule b (sha1_schedule a w)"
  by (induction a arbitrary: w) (simp_all add: Let_def)

lemma sha1_pad_empty: "md_pad be_bytes64 [] = 0x80 # replicate 63 0"
  by code_simp

lemma sha1_words_empty:
  "block_words be_word32 (0x80 # replicate 63 0) =
    [0x80000000, 0x00000000, 0x00000000, 0x00000000, 0x00000000, 0x00000000,
     0x00000000, 0x00000000, 0x00000000, 0x00000000, 0x00000000, 0x00000000,
     0x00000000, 0x00000000, 0x00000000, 0x00000000]"
  by code_simp

lemma sha1_schedule_1:
  "sha1_schedule 16
    [0x80000000, 0x00000000, 0x00000000, 0x00000000, 0x00000000, 0x00000000,
     0x00000000, 0x00000000, 0x00000000, 0x00000000, 0x00000000, 0x00000000,
     0x00000000, 0x00000000, 0x00000000, 0x00000000] =
    [0x80000000, 0x00000000, 0x00000000, 0x00000000, 0x00000000, 0x00000000,
     0x00000000, 0x00000000, 0x00000000, 0x00000000, 0x00000000, 0x00000000,
     0x00000000, 0x00000000, 0x00000000, 0x00000000, 0x00000001, 0x00000000,
     0x00000000, 0x00000002, 0x00000000, 0x00000000, 0x00000004, 0x00000000,
     0x00000002, 0x00000008, 0x00000000, 0x00000000, 0x00000010, 0x00000000,
     0x0000000A, 0x00000020]"
  by code_simp

lemma sha1_schedule_2:
  "sha1_schedule 16
    [0x80000000, 0x00000000, 0x00000000, 0x00000000, 0x00000000, 0x00000000,
     0x00000000, 0x00000000, 0x00000000, 0x00000000, 0x00000000, 0x00000000,
     0x00000000, 0x00000000, 0x00000000, 0x00000000, 0x00000001, 0x00000000,
     0x00000000, 0x00000002, 0x00000000, 0x00000000, 0x00000004, 0x00000000,
     0x00000002, 0x00000008, 0x00000000, 0x00000000, 0x00000010, 0x00000000,
     0x0000000A, 0x00000020] =
    [0x80000000, 0x00000000, 0x00000000, 0x00000000, 0x00000000, 0x00000000,
     0x00000000, 0x00000000, 0x00000000, 0x00000000, 0x00000000, 0x00000000,
     0x00000000, 0x00000000, 0x00000000, 0x00000000, 0x00000001, 0x00000000,
     0x00000000, 0x00000002, 0x00000000, 0x00000000, 0x00000004, 0x00000000,
     0x00000002, 0x00000008, 0x00000000, 0x00000000, 0x00000010, 0x00000000,
     0x0000000A, 0x00000020, 0x00000006, 0x00000000, 0x00000040, 0x00000008,
     0x00000028, 0x00000080, 0x00000008, 0x00000000, 0x00000108, 0x00000000,
     0x000000A0, 0x00000200, 0x00000064, 0x00000000, 0x00000408, 0x00000088]"
  by code_simp

lemma sha1_schedule_3:
  "sha1_schedule 16
    [0x80000000, 0x00000000, 0x00000000, 0x00000000, 0x00000000, 0x00000000,
     0x00000000, 0x00000000, 0x00000000, 0x00000000, 0x00000000, 0x00000000,
     0x00000000, 0x00000000, 0x00000000, 0x00000000, 0x00000001, 0x00000000,
     0x00000000, 0x00000002, 0x00000000, 0x00000000, 0x00000004, 0x00000000,
     0x00000002, 0x00000008, 0x00000000, 0x00000000, 0x00000010, 0x00000000,
     0x0000000A, 0x00000020, 0x00000006, 0x00000000, 0x00000040, 0x00000008,
     0x00000028, 0x00000080, 0x00000008, 0x00000000, 0x00000108, 0x00000000,
     0x000000A0, 0x00000200, 0x00000064, 0x00000000, 0x00000408, 0x00000088] =
    [0x80000000, 0x00000000, 0x00000000, 0x00000000, 0x00000000, 0x00000000,
     0x00000000, 0x00000000, 0x00000000, 0x00000000, 0x00000000, 0x00000000,
     0x00000000, 0x00000000, 0x00000000, 0x00000000, 0x00000001, 0x00000000,
     0x00000000, 0x00000002, 0x00000000, 0x00000000, 0x00000004, 0x00000000,
     0x00000002, 0x00000008, 0x00000000, 0x00000000, 0x00000010, 0x00000000,
     0x0000000A, 0x00000020, 0x00000006, 0x00000000, 0x00000040, 0x00000008,
     0x00000028, 0x00000080, 0x00000008, 0x00000000, 0x00000108, 0x00000000,
     0x000000A0, 0x00000200, 0x00000064, 0x00000000, 0x00000408, 0x00000088,
     0x0000029C, 0x00000800, 0x00000080, 0x00000028, 0x00001088, 0x00000000,
     0x00000A40, 0x00002000, 0x00000668, 0x00000080, 0x00004088, 0x00000880,
     0x000028C8, 0x00008000, 0x000008A8, 0x00000080]"
  by code_simp

lemma sha1_schedule_4:
  "sha1_schedule 16
    [0x80000000, 0x00000000, 0x00000000, 0x00000000, 0x00000000, 0x00000000,
     0x00000000, 0x00000000, 0x00000000, 0x00000000, 0x00000000, 0x00000000,
     0x00000000, 0x00000000, 0x00000000, 0x00000000, 0x00000001, 0x00000000,
     0x00000000, 0x00000002, 0x00000000, 0x00000000, 0x00000004, 0x00000000,
     0x00000002, 0x00000008, 0x00000000, 0x00000000, 0x00000010, 0x00000000,
     0x0000000A, 0x00000020, 0x00000006, 0x00000000, 0x00000040, 0x00000008,
     0x00000028, 0x00000080, 0x00000008, 0x00000000, 0x00000108, 0x00000000,
     0x000000A0, 0x00000200, 0x00000064, 0x00000000, 0x00000408, 0x00000088,
     0x0000029C, 0x00000800, 0x00000080, 0x00000028, 0x00001088, 0x00000000,
     0x00000A40, 0x00002000, 0x00000668, 0x00000080, 0x00004088, 0x00000880,
     0x000028C8, 0x00008000, 0x000008A8, 0x00000080] =
    [0x80000000, 0x00000000, 0x00000000, 0x00000000, 0x00000000, 0x00000000,
     0x00000000, 0x00000000, 0x00000000, 0x00000000, 0x00000000, 0x00000000,
     0x00000000, 0x00000000, 0x00000000, 0x00000000, 0x00000001, 0x00000000,
     0x00000000, 0x00000002, 0x00000000, 0x00000000, 0x00000004, 0x00000000,
     0x00000002, 0x00000008, 0x00000000, 0x00000000, 0x00000010, 0x00000000,
     0x0000000A, 0x00000020, 0x00000006, 0x00000000, 0x00000040, 0x00000008,
     0x00000028, 0x00000080, 0x00000008, 0x00000000, 0x00000108, 0x00000000,
     0x000000A0, 0x00000200, 0x00000064, 0x00000000, 0x00000408, 0x00000088,
     0x0000029C, 0x00000800, 0x00000080, 0x00000028, 0x00001088, 0x00000000,
     0x00000A40, 0x00002000, 0x00000668, 0x00000080, 0x00004088, 0x00000880,
     0x000028C8, 0x00008000, 0x000008A8, 0x00000080, 0x000108E8, 0x00000000,
     0x0000A000, 0x00020080, 0x00006400, 0x00000000, 0x00040800, 0x00008800,
     0x00029C10, 0x00080000, 0x00008080, 0x00002820, 0x001088C0, 0x00000000,
     0x000A40C0, 0x00200080]"
  by code_simp

lemma sha1_schedule_empty:
  "sha1_schedule 64 (block_words be_word32 (0x80 # replicate 63 0)) =
    [0x80000000, 0x00000000, 0x00000000, 0x00000000, 0x00000000, 0x00000000,
     0x00000000, 0x00000000, 0x00000000, 0x00000000, 0x00000000, 0x00000000,
     0x00000000, 0x00000000, 0x00000000, 0x00000000, 0x00000001, 0x00000000,
     0x00000000, 0x00000002, 0x00000000, 0x00000000, 0x00000004, 0x00000000,
     0x00000002, 0x00000008, 0x00000000, 0x00000000, 0x00000010, 0x00000000,
     0x0000000A, 0x00000020, 0x00000006, 0x00000000, 0x00000040, 0x00000008,
     0x00000028, 0x00000080, 0x00000008, 0x00000000, 0x00000108, 0x00000000,
     0x000000A0, 0x00000200, 0x00000064, 0x00000000, 0x00000408, 0x00000088,
     0x0000029C, 0x00000800, 0x00000080, 0x00000028, 0x00001088, 0x00000000,
     0x00000A40, 0x00002000, 0x00000668, 0x00000080, 0x00004088, 0x00000880,
     0x000028C8, 0x00008000, 0x000008A8, 0x00000080, 0x000108E8, 0x00000000,
     0x0000A000, 0x00020080, 0x00006400, 0x00000000, 0x00040800, 0x00008800,
     0x00029C10, 0x00080000, 0x00008080, 0x00002820, 0x001088C0, 0x00000000,
     0x000A40C0, 0x00200080]"
proof -
  have "sha1_schedule 64 w = sha1_schedule 16 (sha1_schedule 16 (sha1_schedule 16 (sha1_schedule 16 w)))"
    for w
    using sha1_schedule_add [of 16 48 w] sha1_schedule_add [of 16 32 "sha1_schedule 16 w"]
      sha1_schedule_add [of 16 16 "sha1_schedule 16 (sha1_schedule 16 w)"]
    by simp
  then show ?thesis
    by (simp only: sha1_words_empty sha1_schedule_1 sha1_schedule_2 sha1_schedule_3 sha1_schedule_4)
qed

lemma sha1_rounds_empty:
  "fold (sha1_step
    [0x80000000, 0x00000000, 0x00000000, 0x00000000, 0x00000000, 0x00000000,
     0x00000000, 0x00000000, 0x00000000, 0x00000000, 0x00000000, 0x00000000,
     0x00000000, 0x00000000, 0x00000000, 0x00000000, 0x00000001, 0x00000000,
     0x00000000, 0x00000002, 0x00000000, 0x00000000, 0x00000004, 0x00000000,
     0x00000002, 0x00000008, 0x00000000, 0x00000000, 0x00000010, 0x00000000,
     0x0000000A, 0x00000020, 0x00000006, 0x00000000, 0x00000040, 0x00000008,
     0x00000028, 0x00000080, 0x00000008, 0x00000000, 0x00000108, 0x00000000,
     0x000000A0, 0x00000200, 0x00000064, 0x00000000, 0x00000408, 0x00000088,
     0x0000029C, 0x00000800, 0x00000080, 0x00000028, 0x00001088, 0x00000000,
     0x00000A40, 0x00002000, 0x00000668, 0x00000080, 0x00004088, 0x00000880,
     0x000028C8, 0x00008000, 0x000008A8, 0x00000080, 0x000108E8, 0x00000000,
     0x0000A000, 0x00020080, 0x00006400, 0x00000000, 0x00040800, 0x00008800,
     0x00029C10, 0x00080000, 0x00008080, 0x00002820, 0x001088C0, 0x00000000,
     0x000A40C0, 0x00200080])
    [0..<80] (0x67452301, 0xEFCDAB89, 0x98BADCFE, 0x10325476, 0xC3D2E1F0) =
    (0x72F480ED, 0x6E9D9F84, 0x999AE2F1, 0x852DC41A, 0xEC052519)"
  by code_simp

lemma sha1_block_empty:
  "sha1_block sha1_init (0x80 # replicate 63 0) =
    (0xDA39A3EE, 0x5E6B4B0D, 0x3255BFEF, 0x95601890, 0xAFD80709)"
  unfolding sha1_block_def sha1_init_def sha1_schedule_empty
  by (simp only: prod.case sha1_rounds_empty) simp

lemma md_blocks_single: "length p = 64 \<Longrightarrow> md_blocks block st p = block st p"
  by (subst md_blocks.simps, subst md_blocks.simps) simp

lemma len64: "length (0x80 # replicate 63 (0 :: byte)) = 64"
  by simp

lemma sha1_sum_empty:
  "EncodeToString (sha1_sum []) = ''da39a3ee5e6b4b0d3255bfef95601890afd80709''"
proof -
  have "sha1_sum [] =
      (case (0xDA39A3EE, 0x5E6B4B0D, 0x3255BFEF, 0x95601890, 0xAFD80709) of
        (a, b, c, d, e) \<Rightarrow>
          be_bytes32 a @ be_bytes32 b @ be_bytes32 c @ be_bytes32 d @ be_bytes32 e)"
    by (simp only: sha1_sum_def sha1_pad_empty md_blocks_single [OF len64] sha1_block_empty)
  also have "\<dots> = [0xDA, 0x39, 0xA3, 0xEE, 0x5E, 0x6B, 0x4B, 0x0D, 0x32, 0x55, 0xBF, 0xEF, 0x95, 0x60, 0x18, 0x90, 0xAF, 0xD8, 0x07, 0x09]"
    by code_simp
  finally have s: "sha1_sum [] = [0xDA, 0x39, 0xA3, 0xEE, 0x5E, 0x6B, 0x4B, 0x0D, 0x32, 0x55, 0xBF, 0xEF, 0x95, 0x60, 0x18, 0x90, 0xAF, 0xD8, 0x07, 0x09]" .
  have "EncodeToString [0xDA, 0x39, 0xA3, 0xEE, 0x5E, 0x6B, 0x4B, 0x0D, 0x32, 0x55, 0xBF, 0xEF, 0x95, 0x60, 0x18, 0x90, 0xAF, 0xD8, 0x07, 0x09] =
      ''da39a3ee5e6b4b0d3255bfef95601890afd80709''"
    by code_simp
  then show ?thesis by (simp only: s)
qed

lemma sha256_sum_empty:
  "EncodeToString (sha256_sum []) = ''e3b0c44298fc1c149afbf4c8996fb92427ae41e4649b934ca495991b7852b855''"
  by code_simp

text \<open>
  Claim C6. On the empty buffer \<^verbatim>\<open>GetMD5Hash\<close> returns \<^verbatim>\<open>d41d8cd98f00b204e9800998ecf8427e\<close>,
  \<^verbatim>\<open>GetSHA1Hash\<close> returns \<^verbatim>\<open>da39a3ee5e6b4b0d3255bfef95601890afd80709\<close> and \<^verbatim>\<open>GetSHA256Hash\<close> returns
  \<^verbatim>\<open>e3b0c44298fc1c149afbf4c8996fb92427ae41e4649b934ca495991b7852b855\<close>, whatever hash objects
  were allocated before.
\<close>

theorem empty_buffer_digests:
  "fst (GetMD5Hash [] h) = ''d41d8cd98f00b204e9800998ecf8427e''
   \<and> fst (GetSHA1Hash [] h) = ''da39a3ee5e6b4b0d3255bfef95601890afd80709''
   \<and> fst (GetSHA256Hash [] h) = ''e3b0c44298fc1c149afbf4c8996fb92427ae41e4649b934ca495991b7852b855''"
  by (simp only: GetMD5Hash_eq GetSHA1Hash_eq GetSHA256Hash_eq md5_sum_empty sha1_sum_empty
      sha256_sum_empty simp_thms)

lemma length_EncodeToString: "length (EncodeToString src) = 2 * length src"
  by (induction src) (simp_all add: EncodeToString_def)

lemma nibble_lt: "unat (drop_bit 4 (v :: byte)) < 16" "unat (v AND 0x0F) < 16"
proof -
  have "unat v < 256" using unsigned_less [of v, where ?'a = nat] by simp
  moreover have "unat (drop_bit 4 v) = unat v div 16" by (simp add: drop_bit_eq_div unat_div)
  ultimately show "unat (drop_bit 4 v) < 16" by simp
  have "v AND 0x0F \<le> 0x0F" by (rule word_and_le1)
  then show "unat (v AND 0x0F) < 16" by (simp add: word_le_nat_alt)
qed

lemma set_EncodeToString: "set (EncodeToString src) \<subseteq> set hextable"
proof -
  have "hextable ! n \<in> set hextable" if "n < 16" for n
    using that by (intro nth_mem) (simp add: hextable_def)
  then show ?thesis
    by (auto simp add: EncodeToString_def nibble_lt)
qed

lemma length_md5_sum: "length (md5_sum msg) = 16"
  by (simp add: md5_sum_def le_bytes32_def split: prod.splits)

lemma length_sha1_sum: "length (sha1_sum msg) = 20"
  by (simp add: sha1_sum_def be_bytes32_def split: prod.splits)

lemma length_sha256_sum: "length (sha256_sum msg) = 32"
  by (simp add: sha256_sum_def be_bytes32_def split: prod.splits)

text \<open>
  Claim C7. For every buffer the three digests are strings over \<^verbatim>\<open>0123456789abcdef\<close> of a length
  that depends on the algorithm alone: 32 characters for \<^verbatim>\<open>GetMD5Hash\<close>, 40 for \<^verbatim>\<open>GetSHA1Hash\<close>,
  64 for \<^verbatim>\<open>GetSHA256Hash\<close>.
\<close>

theorem digest_lengths:
  "length (fst (GetMD5Hash data h)) = 32 \<and> set (fst (GetMD5Hash data h)) \<subseteq> set ''0123456789abcdef''
   \<and> length (fst (GetSHA1Hash data h)) = 40 \<and> set (fst (GetSHA1Hash data h)) \<subseteq> set ''0123456789abcdef''
   \<and> length (fst (GetSHA256Hash data h)) = 64 \<and> set (fst (GetSHA256Hash data h)) \<subseteq> set ''0123456789abcdef''"
  using set_EncodeToString
  by (simp add: GetMD5Hash_eq GetSHA1Hash_eq GetSHA256Hash_eq length_EncodeToString
      length_md5_sum length_sha1_sum length_sha256_sum hextable_def)

text \<open>
  Claim C8. The digest of a buffer does not depend on the heap the call starts from, that
  is, on which hash objects earlier calls allocated and what they absorbed: each call works
  on an object of its own, fresh from \<^verbatim>\<open>New\<close>. Two calls on the same bytes give the same string,
  in any heaps \<open>h\<close> and \<open>h'\<close>; in particular a call gives the same string before and after
  any other call. (A buffer is the list of its bytes here, so where it was allocated cannot
  enter.)
\<close>

theorem digests_deterministic:
  "fst (GetMD5Hash data h) = fst (GetMD5Hash data h')
   \<and> fst (GetSHA1Hash data h) = fst (GetSHA1Hash data h')
   \<and> fst (GetSHA256Hash data h) = fst (GetSHA256Hash data h')
   \<and> fst (GetMD5Hash data (snd (GetSHA1Hash other h))) = fst (GetMD5Hash data h)
   \<and> fst (GetSHA1Hash data (snd (GetSHA256Hash other h))) = fst (GetSHA1Hash data h)
   \<and> fst (GetSHA256Hash data (snd (GetMD5Hash other h))) = fst (GetSHA256Hash data h)"
  by (simp add: GetMD5Hash_eq GetSHA1Hash_eq GetSHA256Hash_eq)

section \<open>Which operation can fail\<close>

lemma count_bytes_checked_fold:
  fixes data :: "byte list"
  shows "length occ = 256 \<Longrightarrow>
    fold (\<lambda>char acc.
             case acc of
               Inl p \<Rightarrow> Inl p
             | Inr occurences \<Rightarrow>
                 if unat char < length occurences
                 then Inr (occurences[unat char := occurences ! unat char + 1])
                 else Inl (IndexOutOfRange (unat char) (length occurences)))
       data (Inr occ)
    = Inr (fold (\<lambda>char occurences. occurences[unat char := occurences ! unat char + 1]) data occ)"
proof (induction data arbitrary: occ)
  case Nil
  then show ?case by simp
next
  case (Cons c data)
  have c: "unat c < 256" using unsigned_less [of c, where ?'a = nat] by simp
  have len: "length (occ[unat c := occ ! unat c + 1]) = 256" using Cons.prems by simp
  show ?case using Cons.prems c Cons.IH [OF len] by simp
qed

lemma count_bytes_checked_eq: "count_bytes_checked data = Inr (count_bytes data)"
  unfolding count_bytes_checked_def count_bytes_def
  by (rule count_bytes_checked_fold) simp

lemma GetEntropy_checked_eq: "GetEntropy_checked F data = Inr (GetEntropy F data)"
  by (simp add: GetEntropy_checked_def GetEntropy_def count_bytes_checked_eq)

lemma fails_call_iff:
  "fails (call W op data) \<longleftrightarrow> op = Call_GetFuzzyHash \<and> snd (fuzzy W data) \<noteq> None"
proof (cases op)
  case Call_GetFuzzyHash
  then show ?thesis
    by (cases "snd (fuzzy W data)") (simp_all add: GetFuzzyHash_def Wrap_def Let_def)
qed (simp_all add: GetEntropy_checked_eq)

text \<open>
  Claim C9. \<^verbatim>\<open>GetFuzzyHash\<close> returns an error exactly when \<^verbatim>\<open>ssdeep.FuzzyBytes\<close> does. The
  error it returns is the library's error under a message and a stack annotation, so
  \<^verbatim>\<open>errors.Cause\<close> leads back to the library's cause and the text ends with the library's
  text; the string returned with it is empty. When the library succeeds its string is handed
  on unchanged. It is the only operation that can fail: a call of any operation of the file
  fails (panics, or returns an error that is not \<^verbatim>\<open>nil\<close>) exactly when it is a call of
  \<^verbatim>\<open>GetFuzzyHash\<close> on which the library fails; \<^verbatim>\<open>GetEntropy\<close> returns its \<^verbatim>\<open>float64\<close> (the array
  access is always in range), the three digest functions return their string and the two
  validators their \<^verbatim>\<open>bool\<close>.
\<close>

theorem GetFuzzyHash_error_iff:
  "(snd (GetFuzzyHash F data) \<noteq> None \<longleftrightarrow> snd (F data) \<noteq> None)
   \<and> (\<forall>e. snd (F data) = Some e \<longrightarrow>
          GetFuzzyHash F data = ('''', Some (WithStack (WithMessage e ''fail to calc fuzzy hash'')))
          \<and> Cause (the (snd (GetFuzzyHash F data))) = Cause e
          \<and> Error_text t (the (snd (GetFuzzyHash F data))) = ''fail to calc fuzzy hash: '' @ Error_text t e)
   \<and> (snd (F data) = None \<longrightarrow> GetFuzzyHash F data = (fst (F data), None))
   \<and> (fails (call W op data) \<longleftrightarrow> op = Call_GetFuzzyHash \<and> snd (fuzzy W data) \<noteq> None)
   \<and> call W Call_GetEntropy data = RetFloat64 (GetEntropy (arith W) data)
   \<and> call W Call_GetMD5Hash data = RetString (EncodeToString (md5_sum data))
   \<and> call W Call_GetSHA1Hash data = RetString (EncodeToString (sha1_sum data))
   \<and> call W Call_GetSHA256Hash data = RetString (EncodeToString (sha256_sum data))
   \<and> call W Call_isValidFuncName data = RetBool (isValidFuncName (tables W) data)
   \<and> call W Call_isValidDosFilename data = RetBool (isValidDosFilename (tables W) data)"
proof -
  have "(snd (GetFuzzyHash F data) \<noteq> None \<longleftrightarrow> snd (F data) \<noteq> None)
   \<and> (\<forall>e. snd (F data) = Some e \<longrightarrow>
          GetFuzzyHash F data = ('''', Some (WithStack (WithMessage e ''fail to calc fuzzy hash'')))
          \<and> Cause (the (snd (GetFuzzyHash F data))) = Cause e
          \<and> Error_text t (the (snd (GetFuzzyHash F data))) = ''fail to calc fuzzy hash: '' @ Error_text t e)
   \<and> (snd (F data) = None \<longrightarrow> GetFuzzyHash F data = (fst (F data), None))"
    by (auto simp add: GetFuzzyHash_def Wrap_def Let_def)
  then show ?thesis
    by (simp add: fails_call_iff GetEntropy_checked_eq GetMD5Hash_eq GetSHA1Hash_eq
        GetSHA256Hash_eq)
qed

theorem GetFuzzyHash_error_iff_witness:
  "snd (stub_FuzzyBytes [0x4D, 0x5A]) = Some (Opaque ''input too small'')
   \<and> GetFuzzyHash stub_FuzzyBytes [0x4D, 0x5A] =
        ('''', Some (WithStack (WithMessage (Opaque ''input too small'') ''fail to calc fuzzy hash'')))
   \<and> Cause (the (snd (GetFuzzyHash stub_FuzzyBytes [0x4D, 0x5A]))) = Opaque ''input too small''
   \<and> Error_text id (the (snd (GetFuzzyHash stub_FuzzyBytes [0x4D, 0x5A])))
        = ''fail to calc fuzzy hash: input too small''
   \<and> snd (stub_FuzzyBytes (replicate 4096 0)) = None
   \<and> GetFuzzyHash stub_FuzzyBytes (replicate 4096 0) = (''96:stub:stub'', None)
   \<and> fails (call stub_world Call_GetFuzzyHash [0x4D, 0x5A])
   \<and> \<not> fails (call stub_world Call_GetFuzzyHash (replicate 4096 0))
   \<and> \<not> fails (call stub_world Call_GetEntropy [0x4D, 0x5A])
   \<and> \<not> fails (call stub_world Call_GetMD5Hash [0x4D, 0x5A])
   \<and> \<not> fails (call stub_world Call_GetSHA1Hash [0x4D, 0x5A])
   \<and> \<not> fails (call stub_world Call_GetSHA256Hash [0x4D, 0x5A])
   \<and> \<not> fails (call stub_world Call_isValidFuncName [0x4D, 0x5A])
   \<and> \<not> fails (call stub_world Call_isValidDosFilename [0x4D, 0x5A])"
proof -
  have e: "snd (stub_FuzzyBytes [0x4D, 0x5A]) = Some (Opaque ''input too small'')"
    by (simp add: stub_FuzzyBytes_def)
  have n: "snd (stub_FuzzyBytes (replicate 4096 0)) = None"
    by (simp add: stub_FuzzyBytes_def)
  have f: "fst (stub_FuzzyBytes (replicate 4096 0)) = ''96:stub:stub''"
    by (simp add: stub_FuzzyBytes_def)
  have w: "fuzzy stub_world = stub_FuzzyBytes"
    by (simp add: stub_world_def)
  note a = GetFuzzyHash_error_iff [of stub_FuzzyBytes "[0x4D, 0x5A]" id stub_world _ ]
  note b = GetFuzzyHash_error_iff [of stub_FuzzyBytes "replicate 4096 0" id stub_world Call_GetFuzzyHash]
  have 1: "fails (call stub_world Call_GetFuzzyHash [0x4D, 0x5A])"
    using a [of Call_GetFuzzyHash] e w by simp
  have 2: "\<not> fails (call stub_world Call_GetFuzzyHash (replicate 4096 0))"
    using b n w by simp
  have 3: "\<not> fails (call stub_world op [0x4D, 0x5A])" if "op \<noteq> Call_GetFuzzyHash" for op
    using a [of op] that by simp
  show ?thesis
    using a [of Call_GetFuzzyHash] b e n f 1 2 3 [of Call_GetEntropy] 3 [of Call_GetMD5Hash]
      3 [of Call_GetSHA1Hash] 3 [of Call_GetSHA256Hash] 3 [of Call_isValidFuncName]
      3 [of Call_isValidDosFilename]
    by simp
qed


end
